theory Spec2Isabelle
  imports Main "HOL-Library.Word" "HOL-Library.Multiset" "HOL-Library.Sublist"
begin

section \<open>Data model\<close>

text \<open>
  A shallow embedding of \<^verbatim>\<open>taring.go\<close>: the recursive walk of a bucket
  (\<^verbatim>\<open>fetchPath\<close>), the per-level concurrent fetch (\<^verbatim>\<open>fetchAll\<close>),
  the archive writer (\<^verbatim>\<open>tarify\<close>, \<^verbatim>\<open>TarHeader\<close>) and the part of
  \<^verbatim>\<open>main\<close> that drives them. Logging calls (\<^verbatim>\<open>infof\<close>) and the values
  computed only for them (\<^verbatim>\<open>prfx\<close>, \<^verbatim>\<open>sumKey\<close>, \<^verbatim>\<open>start\<close>) are
  left out; nothing else is.
\<close>

type_synonym byte = "8 word"

text \<open>A \<^verbatim>\<open>time.Time\<close>, as a count of nanoseconds.\<close>

type_synonym time = int

text \<open>
  Go errors. \<^verbatim>\<open>fmt.Errorf(format, args...)\<close> is kept as the format string with its
  arguments, so that no rendering of \<^verbatim>\<open>%q\<close> or \<^verbatim>\<open>%d\<close> has to be
  invented; \<open>ArgJoin es sep\<close> is \<^verbatim>\<open>strings.Join\<close> of the messages
  (\<^verbatim>\<open>err.Error()\<close>) of \<open>es\<close>. \<open>LibErr\<close> is an error value that an
  external library returned, named by its message.
\<close>

datatype error =
    LibErr string
  | Errorf string "fmtarg list"
and fmtarg =
    ArgStr string
  | ArgInt int
  | ArgErr error
  | ArgJoin "error list" string

text \<open>\<^verbatim>\<open>s3.Key\<close> and \<^verbatim>\<open>s3.ListResp\<close> of goamz, with the fields the program reads
  and the truncation flag it does not read.\<close>

record s3_Key =
  Key :: string
  LastModified :: string
  Size :: int

record s3_ListResp =
  Contents :: "s3_Key list"
  CommonPrefixes :: "string list"
  IsTruncated :: bool

text \<open>
  The bucket and the time parser are external: \<open>bkt_List\<close> is
  \<^verbatim>\<open>bkt.List(prefix, delim, marker, max)\<close>, \<open>bkt_Get\<close> is \<^verbatim>\<open>bkt.Get(key)\<close>,
  \<open>time_Parse\<close> is \<^verbatim>\<open>time.Parse(time.RFC3339Nano, s)\<close>.
\<close>

record bucket =
  bkt_List :: "string \<Rightarrow> string \<Rightarrow> string \<Rightarrow> nat \<Rightarrow> error + s3_ListResp"
  bkt_Get :: "string \<Rightarrow> error + byte list"
  time_Parse :: "string \<Rightarrow> error + time"

record S3Content =
  Name :: string
  LastMod :: time
  Data :: "byte list"

section \<open>Relative paths: \<^verbatim>\<open>filepath.Clean\<close> and \<^verbatim>\<open>filepath.Rel\<close>\<close>

text \<open>
  The two functions of Go's \<^verbatim>\<open>path/filepath\<close> that \<^verbatim>\<open>fetchAll\<close> relies on, for
  a Unix build: the separator is \<^verbatim>\<open>/\<close> and there are no volume names. They are
  external to the program and follow the library's algorithms; \<^verbatim>\<open>Clean\<close> is written
  over the list of path elements, where the library works on a byte buffer to the same
  effect, and \<^verbatim>\<open>Rel\<close> keeps the library's loop over both paths.
\<close>

definition Separator :: char where
  "Separator = CHR ''/''"

text \<open>The path elements between separators (\<open>n\<close> separators give \<open>n + 1\<close> elements).\<close>

fun elements :: "string \<Rightarrow> string list" where
  "elements [] = [[]]"
| "elements (c # cs) =
     (if c = Separator then [] # elements cs
      else (case elements cs of e # es \<Rightarrow> (c # e) # es | [] \<Rightarrow> [[c]]))"

fun join_sep :: "string list \<Rightarrow> string" where
  "join_sep [] = []"
| "join_sep [e] = e"
| "join_sep (e # es) = e @ [Separator] @ join_sep es"

text \<open>
  One element of \<^verbatim>\<open>Clean\<close>'s loop. The output buffer is the stack \<open>out\<close> of elements
  written so far, last one first. An empty element and \<^verbatim>\<open>.\<close> are skipped;
  \<^verbatim>\<open>..\<close> removes the last real element, is dropped at the root, and is kept
  in front of a path that is not rooted.
\<close>

definition clean_step :: "bool \<Rightarrow> string list \<Rightarrow> string \<Rightarrow> string list" where
  "clean_step rooted out e =
     (if e = [] \<or> e = ''.'' then out
      else if e = ''..'' then
        (case out of
           [] \<Rightarrow> if rooted then [] else [''..'']
         | t # r \<Rightarrow> if t = ''..'' then ''..'' # out else r)
      else e # out)"

definition Clean :: "string \<Rightarrow> string" where
  "Clean path =
     (if path = [] then ''.''
      else
        let rooted = (hd path = Separator);
            out = foldl (clean_step rooted) [] (elements path);
            s = (if rooted then [Separator] else []) @ join_sep (rev out)
        in if s = [] then ''.'' else s)"

text \<open>
  \<^verbatim>\<open>Rel\<close>'s loop, which positions both paths at their first differing elements.
  \<open>b\<close> and \<open>t\<close> are \<^verbatim>\<open>base[b0:]\<close> and \<^verbatim>\<open>targ[t0:]\<close> at the head of the loop.
  The result is \<^verbatim>\<open>(base[b0:bi], base[b0:], targ[t0:])\<close> when the loop is left.
\<close>

definition skip_elem :: "string \<Rightarrow> string" where
  "skip_elem s =
     (let r = dropWhile (\<lambda>c. c \<noteq> Separator) s in if r \<noteq> [] then tl r else r)"

function rel_loop :: "string \<Rightarrow> string \<Rightarrow> string \<times> string \<times> string" where
  "rel_loop b t =
     (if b = [] \<or> t = [] then ([], b, t)
      else
        let be = takeWhile (\<lambda>c. c \<noteq> Separator) b;
            te = takeWhile (\<lambda>c. c \<noteq> Separator) t
        in if te \<noteq> be then (be, b, t)
           else rel_loop (skip_elem b) (skip_elem t))"
  by pat_completeness auto
termination
proof (relation "measure (\<lambda>(b, t). length b)", goal_cases)
  case 1
  show ?case by simp
next
  case (2 b t be te)
  then have ne: "b \<noteq> []" by simp
  let ?r = "dropWhile (\<lambda>c. c \<noteq> Separator) b"
  have le: "length ?r \<le> length b" by (rule length_dropWhile_le)
  have "length (skip_elem b) < length b"
  proof (cases "?r = []")
    case True
    then have "skip_elem b = []" unfolding skip_elem_def Let_def by simp
    with ne show ?thesis by simp
  next
    case False
    then have lt: "length (tl ?r) < length ?r" by (cases ?r) auto
    from False have eq: "skip_elem b = tl ?r" unfolding skip_elem_def Let_def by simp
    from le lt show ?thesis unfolding eq by linarith
  qed
  then show ?case by simp
qed

declare rel_loop.simps [simp del]

definition count_sep :: "string \<Rightarrow> nat" where
  "count_sep s = length (filter (\<lambda>c. c = Separator) s)"

definition Rel :: "string \<Rightarrow> string \<Rightarrow> error + string" where
  "Rel basepath targpath =
     (let base0 = Clean basepath; targ = Clean targpath
      in if targ = base0 then Inr ''.''
         else
           let base = (if base0 = ''.'' then [] else base0);
               baseSlashed = (base \<noteq> [] \<and> hd base = Separator);
               targSlashed = (targ \<noteq> [] \<and> hd targ = Separator)
           in if baseSlashed \<noteq> targSlashed
              then Inl (LibErr ''Rel: cannot make path relative'')
              else
                (case rel_loop base targ of
                   (be, b, t) \<Rightarrow>
                     if be = ''..'' then Inl (LibErr ''Rel: cannot make path relative'')
                     else if b \<noteq> [] then
                       Inr (''..'' @ concat (replicate (count_sep b) ''/..'')
                            @ (if t \<noteq> [] then [Separator] @ t else []))
                     else Inr t))"

section \<open>The level fetcher\<close>

text \<open>
  One task of \<^verbatim>\<open>fetchAll\<close> (the closure \<^verbatim>\<open>doFetch\<close>): what it sends, on
  \<^verbatim>\<open>errc\<close> (\<open>Inl\<close>) or on \<^verbatim>\<open>contentC\<close> (\<open>Inr\<close>).
\<close>

definition doFetch :: "bucket \<Rightarrow> string \<Rightarrow> s3_Key \<Rightarrow> error + S3Content" where
  "doFetch bkt base k =
     (case time_Parse bkt (LastModified k) of
        Inl err \<Rightarrow>
          Inl (Errorf ''failed to parse time of %q: %v'' [ArgStr (LastModified k), ArgErr err])
      | Inr lastMod \<Rightarrow>
          (case Rel base (Key k) of
             Inl err \<Rightarrow>
               Inl (Errorf ''failed to find relative path for %q: %v'' [ArgStr (Key k), ArgErr err])
           | Inr relPath \<Rightarrow>
               (case bkt_Get bkt (Key k) of
                  Inl err \<Rightarrow> Inl (Errorf ''failed fetch of %q: %v'' [ArgStr (Key k), ArgErr err])
                | Inr data \<Rightarrow> Inr \<lparr>Name = relPath, LastMod = lastMod, Data = data\<rparr>)))"

text \<open>
  \<^verbatim>\<open>fetchAll\<close> starts one goroutine per key and waits for all of them. Both channels
  are buffered for every key, so each task sends once, in the order the tasks complete.
  That order is the parameter \<open>sched\<close>: it rearranges the keys into completion order.
  The two loops after \<^verbatim>\<open>wg.Wait()\<close> drain the channels in that order.
\<close>

primrec drain_contentC :: "(error + S3Content) list \<Rightarrow> S3Content list" where
  "drain_contentC [] = []"
| "drain_contentC (x # xs) =
     (case x of Inr content \<Rightarrow> content # drain_contentC xs | Inl _ \<Rightarrow> drain_contentC xs)"

primrec drain_errc :: "(error + S3Content) list \<Rightarrow> error list" where
  "drain_errc [] = []"
| "drain_errc (x # xs) =
     (case x of Inl err \<Rightarrow> err # drain_errc xs | Inr _ \<Rightarrow> drain_errc xs)"

definition fetchAll ::
  "(s3_Key list \<Rightarrow> s3_Key list) \<Rightarrow> bucket \<Rightarrow> string \<Rightarrow> s3_Key list \<Rightarrow> error + S3Content list"
where
  "fetchAll sched bkt base keys =
     (let sent = map (doFetch bkt base) (sched keys);
          contents = drain_contentC sent;
          errs = drain_errc sent
      in if length errs \<noteq> 0
         then Inl (Errorf ''%d errors: %s'' [ArgInt (int (length errs)), ArgJoin errs '',''])
         else Inr contents)"

text \<open>A schedule only reorders the tasks: every task completes exactly once.\<close>

definition reorders :: "(s3_Key list \<Rightarrow> s3_Key list) \<Rightarrow> bool" where
  "reorders sched = (\<forall>ks. mset (sched ks) = mset ks)"

section \<open>The path walker\<close>

text \<open>
  A call of \<^verbatim>\<open>bkt.List\<close>, by its arguments: prefix, delimiter, marker and maximum
  number of keys.
\<close>

type_synonym list_call = "string \<times> string \<times> string \<times> nat"

text \<open>
  \<^verbatim>\<open>fetchPath\<close> recurses into whatever prefixes the store returns, so nothing bounds its
  depth: a store that lists a prefix under itself keeps it running. The first argument is
  the depth of recursion allowed, and \<open>None\<close> says that it did not suffice.
  The result carries the \<^verbatim>\<open>bkt.List\<close> calls made, in order, next to what the Go
  function returns. \<open>fetchFolders\<close> is the loop over \<^verbatim>\<open>list.CommonPrefixes\<close>, with
  \<^verbatim>\<open>contents\<close> as its accumulator.
\<close>

fun fetchPath ::
  "nat \<Rightarrow> (s3_Key list \<Rightarrow> s3_Key list) \<Rightarrow> bucket \<Rightarrow> string \<Rightarrow> string
     \<Rightarrow> (list_call list \<times> (error + S3Content list)) option"
and fetchFolders ::
  "nat \<Rightarrow> (s3_Key list \<Rightarrow> s3_Key list) \<Rightarrow> bucket \<Rightarrow> string \<Rightarrow> S3Content list \<Rightarrow> string list
     \<Rightarrow> (list_call list \<times> (error + S3Content list)) option"
where
  "fetchPath 0 sched bkt root bktPath = None"
| "fetchPath (Suc d) sched bkt root bktPath =
     (case bkt_List bkt bktPath ''/'' [] 10000 of
        Inl err \<Rightarrow>
          Some ([(bktPath, ''/'', [], 10000)],
                Inl (Errorf ''couldn't list bucket at path %q: %v'' [ArgStr bktPath, ArgErr err]))
      | Inr list \<Rightarrow>
          (case fetchAll sched bkt root (Contents list) of
             Inl err \<Rightarrow>
               Some ([(bktPath, ''/'', [], 10000)],
                     Inl (Errorf ''fetching content of keys at %q, %v'' [ArgStr bktPath, ArgErr err]))
           | Inr contents \<Rightarrow>
               (case fetchFolders d sched bkt root contents (CommonPrefixes list) of
                  None \<Rightarrow> None
                | Some (calls, r) \<Rightarrow> Some ((bktPath, ''/'', [], 10000) # calls, r))))"
| "fetchFolders d sched bkt root contents [] = Some ([], Inr contents)"
| "fetchFolders d sched bkt root contents (folder # folders) =
     (case fetchPath d sched bkt root folder of
        None \<Rightarrow> None
      | Some (calls, Inl err) \<Rightarrow> Some (calls, Inl err)
      | Some (calls, Inr newContent) \<Rightarrow>
          (case fetchFolders d sched bkt root (contents @ newContent) folders of
             None \<Rightarrow> None
           | Some (calls', r) \<Rightarrow> Some (calls @ calls', r)))"

section \<open>The archive writer\<close>

text \<open>
  The process, as far as \<^verbatim>\<open>TarHeader\<close> looks at it: \<^verbatim>\<open>os.Getuid\<close> and
  \<^verbatim>\<open>os.Getgid\<close> return the real user and group ids of the caller
  (\<^verbatim>\<open>os.Geteuid\<close> and \<^verbatim>\<open>os.Getegid\<close> would return the effective ones).
\<close>

record process =
  real_uid :: int
  effective_uid :: int
  real_gid :: int
  effective_gid :: int

definition os_Getuid :: "process \<Rightarrow> int" where
  "os_Getuid p = real_uid p"

definition os_Getgid :: "process \<Rightarrow> int" where
  "os_Getgid p = real_gid p"

text \<open>\<^verbatim>\<open>os.ModePerm\<close> is \<^verbatim>\<open>0777\<close>; \<^verbatim>\<open>0644\<close> is 420.\<close>

definition os_ModePerm :: "32 word" where
  "os_ModePerm = 511"

definition filePerms :: "32 word" where
  "filePerms = and os_ModePerm 420"

definition tar_TypeReg :: char where
  "tar_TypeReg = CHR ''0''"

text \<open>The fields of \<^verbatim>\<open>tar.Header\<close> that \<^verbatim>\<open>TarHeader\<close> sets; the others keep
  their zero values.\<close>

record tar_Header =
  hdr_Name :: string
  hdr_Size :: int
  hdr_Mode :: int
  hdr_AccessTime :: time
  hdr_ChangeTime :: time
  hdr_ModTime :: time
  hdr_Typeflag :: char
  hdr_Uid :: int
  hdr_Gid :: int

text \<open>\<open>now\<close> is what \<^verbatim>\<open>time.Now()\<close> returns at the call.\<close>

definition TarHeader :: "time \<Rightarrow> process \<Rightarrow> S3Content \<Rightarrow> tar_Header" where
  "TarHeader now proc s =
     \<lparr>hdr_Name = Name s,
      hdr_Size = int (length (Data s)),
      hdr_Mode = uint filePerms,
      hdr_AccessTime = now,
      hdr_ChangeTime = LastMod s,
      hdr_ModTime = LastMod s,
      hdr_Typeflag = tar_TypeReg,
      hdr_Uid = os_Getuid proc,
      hdr_Gid = os_Getgid proc\<rparr>"

text \<open>
  An \<^verbatim>\<open>io.Writer\<close>, by what it does with a chunk given the bytes it has taken so far:
  \<open>None\<close> when it takes the whole chunk, \<open>Some (n, err)\<close> when it takes \<open>n\<close> bytes
  and returns \<open>err\<close> (a writer that takes less than the chunk must return an error).
  The stream is the sequence of bytes taken. A \<^verbatim>\<open>bytes.Buffer\<close> takes everything.
\<close>

type_synonym io_Writer = "byte list \<Rightarrow> byte list \<Rightarrow> (nat \<times> error) option"

definition io_Write :: "io_Writer \<Rightarrow> byte list \<Rightarrow> byte list \<Rightarrow> byte list \<times> nat \<times> error option" where
  "io_Write w out p =
     (case w out p of
        None \<Rightarrow> (out @ p, length p, None)
      | Some (n, err) \<Rightarrow> (out @ take n p, min n (length p), Some err))"

definition bytes_Buffer :: io_Writer where
  "bytes_Buffer out p = None"

text \<open>
  \<^verbatim>\<open>tar.Writer\<close> of Go's \<^verbatim>\<open>archive/tar\<close>, at the level of its contract: the stream
  written so far, the sticky error, the bytes still owed for the current entry, the
  padding owed after it, and whether the writer is closed. How a header becomes bytes is
  the library's business and the parameter \<open>enc\<close> of \<open>tar_WriteHeader\<close>: the header
  block (with whatever extended header records precede it), or the error for a header
  that the format cannot hold.
\<close>

record tar_Writer =
  tw_out :: "byte list"
  tw_err :: "error option"
  tw_nb :: int
  tw_pad :: int
  tw_closed :: bool

definition blockSize :: int where
  "blockSize = 512"

definition zeroBlock :: "byte list" where
  "zeroBlock = replicate 512 0"

definition tar_NewWriter :: "byte list \<Rightarrow> tar_Writer" where
  "tar_NewWriter out = \<lparr>tw_out = out, tw_err = None, tw_nb = 0, tw_pad = 0, tw_closed = False\<rparr>"

text \<open>\<^verbatim>\<open>Flush\<close> refuses an entry that is short of its size, and pads the last entry to a
  block. The padding is less than a block, so it is one write.\<close>

definition tar_Flush :: "io_Writer \<Rightarrow> tar_Writer \<Rightarrow> tar_Writer" where
  "tar_Flush w tw =
     (if tw_nb tw > 0
      then tw\<lparr>tw_err := Some (Errorf ''archive/tar: missed writing %d bytes'' [ArgInt (tw_nb tw)])\<rparr>
      else
        let n = tw_nb tw + tw_pad tw
        in if n > 0
           then (case io_Write w (tw_out tw) (take (nat n) zeroBlock) of
                   (out, nw, err) \<Rightarrow> tw\<lparr>tw_out := out, tw_err := err, tw_nb := 0, tw_pad := 0\<rparr>)
           else tw\<lparr>tw_nb := 0, tw_pad := 0\<rparr>)"

definition tar_WriteHeader ::
  "io_Writer \<Rightarrow> (tar_Header \<Rightarrow> error + byte list) \<Rightarrow> tar_Writer \<Rightarrow> tar_Header
     \<Rightarrow> tar_Writer \<times> error option"
where
  "tar_WriteHeader w enc tw hdr =
     (if tw_closed tw then (tw, Some (LibErr ''archive/tar: write after close''))
      else
        let tw1 = (if tw_err tw = None then tar_Flush w tw else tw)
        in (case tw_err tw1 of
              Some err \<Rightarrow> (tw1, Some err)
            | None \<Rightarrow>
                (case enc hdr of
                   Inl err \<Rightarrow> (tw1\<lparr>tw_err := Some err\<rparr>, Some err)
                 | Inr header \<Rightarrow>
                     (case io_Write w (tw_out tw1) header of
                        (out, n, err) \<Rightarrow>
                          (tw1\<lparr>tw_out := out, tw_err := err, tw_nb := hdr_Size hdr,
                               tw_pad := (- hdr_Size hdr) mod blockSize\<rparr>, err)))))"

definition tar_Write :: "io_Writer \<Rightarrow> tar_Writer \<Rightarrow> byte list \<Rightarrow> tar_Writer \<times> nat \<times> error option" where
  "tar_Write w tw b =
     (if tw_closed tw then (tw, 0, Some (LibErr ''archive/tar: write too long''))
      else
        let overwrite = (int (length b) > tw_nb tw);
            b' = (if overwrite then take (nat (tw_nb tw)) b else b)
        in (case io_Write w (tw_out tw) b' of
              (out, n, err) \<Rightarrow>
                if err = None \<and> overwrite
                then (tw\<lparr>tw_out := out, tw_nb := tw_nb tw - int n\<rparr>, n,
                      Some (LibErr ''archive/tar: write too long''))
                else (tw\<lparr>tw_out := out, tw_err := err, tw_nb := tw_nb tw - int n\<rparr>, n, err)))"

text \<open>\<^verbatim>\<open>Close\<close> flushes and writes the trailer: two zero blocks.\<close>

definition tar_Close :: "io_Writer \<Rightarrow> tar_Writer \<Rightarrow> tar_Writer \<times> error option" where
  "tar_Close w tw =
     (if tw_err tw \<noteq> None \<or> tw_closed tw then (tw, tw_err tw)
      else
        let tw1 = (tar_Flush w tw)\<lparr>tw_closed := True\<rparr>
        in (case tw_err tw1 of
              Some err \<Rightarrow> (tw1, Some err)
            | None \<Rightarrow>
                (case io_Write w (tw_out tw1) zeroBlock of
                   (out1, n1, Some err1) \<Rightarrow> (tw1\<lparr>tw_out := out1, tw_err := Some err1\<rparr>, Some err1)
                 | (out1, n1, None) \<Rightarrow>
                     (case io_Write w out1 zeroBlock of
                        (out2, n2, err2) \<Rightarrow> (tw1\<lparr>tw_out := out2, tw_err := err2\<rparr>, err2)))))"

text \<open>
  The loop of \<^verbatim>\<open>tarify\<close>. \<open>clock i\<close> is the time at which the header of the
  \<open>i\<close>-th object is built. The result is the writer as the function leaves it, and the
  error returned.
\<close>

fun tarify_loop ::
  "io_Writer \<Rightarrow> (tar_Header \<Rightarrow> error + byte list) \<Rightarrow> process \<Rightarrow> (nat \<Rightarrow> time) \<Rightarrow> nat
     \<Rightarrow> tar_Writer \<Rightarrow> S3Content list \<Rightarrow> tar_Writer \<times> error option"
where
  "tarify_loop w enc proc clock i tarw [] = (tarw, None)"
| "tarify_loop w enc proc clock i tarw (object # objects) =
     (case tar_WriteHeader w enc tarw (TarHeader (clock i) proc object) of
        (tarw1, Some err) \<Rightarrow>
          (tarw1, Some (Errorf ''writing header of %q, %v'' [ArgStr (Name object), ArgErr err]))
      | (tarw1, None) \<Rightarrow>
          (case tar_Write w tarw1 (Data object) of
             (tarw2, n, Some err) \<Rightarrow>
               (tarw2, Some (Errorf ''writing content of %q, %v'' [ArgStr (Name object), ArgErr err]))
           | (tarw2, n, None) \<Rightarrow> tarify_loop w enc proc clock (Suc i) tarw2 objects))"

definition tarify ::
  "io_Writer \<Rightarrow> (tar_Header \<Rightarrow> error + byte list) \<Rightarrow> process \<Rightarrow> (nat \<Rightarrow> time)
     \<Rightarrow> byte list \<Rightarrow> S3Content list \<Rightarrow> tar_Writer \<times> error option"
where
  "tarify w enc proc clock out objects =
     (case tarify_loop w enc proc clock 0 (tar_NewWriter out) objects of
        (tarw, Some err) \<Rightarrow> (tarw, Some err)
      | (tarw, None) \<Rightarrow>
          (case tar_Close w tarw of
             (tarw', Some err) \<Rightarrow> (tarw', Some (Errorf ''closing tar buffer, %v'' [ArgErr err]))
           | (tarw', None) \<Rightarrow> (tarw', None)))"

section \<open>The pipeline\<close>

text \<open>
  \<^verbatim>\<open>ioutil.WriteFile\<close>: open the file (created or truncated), write, close. The
  operating system is external: whether the open fails, how much of the data the write
  takes, whether the close fails.
\<close>

type_synonym files = "string \<Rightarrow> byte list option"

record opsys =
  open_fails :: "string \<Rightarrow> error option"
  write_takes :: "string \<Rightarrow> byte list \<Rightarrow> (nat \<times> error) option"
  close_fails :: "string \<Rightarrow> error option"

definition ioutil_WriteFile ::
  "opsys \<Rightarrow> files \<Rightarrow> string \<Rightarrow> byte list \<Rightarrow> files \<times> error option"
where
  "ioutil_WriteFile sys fs filename data =
     (case open_fails sys filename of
        Some err \<Rightarrow> (fs, Some err)
      | None \<Rightarrow>
          (case write_takes sys filename data of
             None \<Rightarrow> (fs(filename \<mapsto> data), close_fails sys filename)
           | Some (n, err) \<Rightarrow> (fs(filename \<mapsto> take n data), Some err)))"

text \<open>How the process ends: \<^verbatim>\<open>fatalf\<close> prints its message and exits with status 2.\<close>

datatype outcome = Fatal string "fmtarg list" | Saved

text \<open>
  \<^verbatim>\<open>main\<close> from the call of \<^verbatim>\<open>fetchPath\<close> on, with \<^verbatim>\<open>bktPath\<close> and
  \<^verbatim>\<open>tarDst\<close> as the flags gave them. \<open>gz\<close> is what \<^verbatim>\<open>compress/gzip\<close> makes of
  the archive; both buffers are \<^verbatim>\<open>bytes.Buffer\<close>s, whose writes do not fail, so the
  two error branches of the compression never run. The result is the file system as the
  process leaves it, and how the process ends.
\<close>

definition main_run ::
  "nat \<Rightarrow> (s3_Key list \<Rightarrow> s3_Key list) \<Rightarrow> bucket \<Rightarrow> (tar_Header \<Rightarrow> error + byte list)
     \<Rightarrow> (byte list \<Rightarrow> byte list) \<Rightarrow> process \<Rightarrow> (nat \<Rightarrow> time) \<Rightarrow> opsys \<Rightarrow> files
     \<Rightarrow> string \<Rightarrow> string \<Rightarrow> (files \<times> outcome) option"
where
  "main_run depth sched bkt enc gz proc clock sys fs bktPath tarDst =
     (case fetchPath depth sched bkt bktPath bktPath of
        None \<Rightarrow> None
      | Some (calls, Inl err) \<Rightarrow>
          Some (fs, Fatal ''couldn't fetch %q: %v.'' [ArgStr bktPath, ArgErr err])
      | Some (calls, Inr contents) \<Rightarrow>
          (case tarify bytes_Buffer enc proc clock [] contents of
             (tarw, Some err) \<Rightarrow> Some (fs, Fatal ''tarifying content, %v.'' [ArgErr err])
           | (tarw, None) \<Rightarrow>
               (case ioutil_WriteFile sys fs tarDst (gz (tw_out tarw)) of
                  (fs', Some err) \<Rightarrow>
                    Some (fs', Fatal ''writing tar/gzip buffer to %q, %v'' [ArgStr tarDst, ArgErr err])
                | (fs', None) \<Rightarrow> Some (fs', Saved))))"

section \<open>Concrete inputs\<close>

text \<open>The bytes of an ASCII string.\<close>

definition bytes_of :: "string \<Rightarrow> byte list" where
  "bytes_of s = map (\<lambda>c. of_nat (of_char c)) s"

text \<open>
  The store of the specification's scenario: the root holds the leaf \<^verbatim>\<open>x\<close> with content
  \<^verbatim>\<open>hello\<close> and the prefix \<^verbatim>\<open>sub/\<close>, which holds the leaf \<^verbatim>\<open>sub/y\<close> with content
  \<^verbatim>\<open>world\<close>. Every other prefix and key is unknown to it, and it parses one timestamp.
\<close>

definition stamp :: string where
  "stamp = ''2014-03-01T10:00:00Z''"

definition key_x :: s3_Key where
  "key_x = \<lparr>Key = ''x'', LastModified = stamp, Size = 5\<rparr>"

definition key_y :: s3_Key where
  "key_y = \<lparr>Key = ''sub/y'', LastModified = stamp, Size = 5\<rparr>"

definition demo_bucket :: bucket where
  "demo_bucket =
     \<lparr>bkt_List = (\<lambda>prefix delim marker max.
        if prefix = [] then Inr \<lparr>Contents = [key_x], CommonPrefixes = [''sub/''], IsTruncated = False\<rparr>
        else if prefix = ''sub/'' then Inr \<lparr>Contents = [key_y], CommonPrefixes = [], IsTruncated = False\<rparr>
        else Inl (LibErr ''NoSuchBucket'')),
      bkt_Get = (\<lambda>key.
        if key = ''x'' then Inr (bytes_of ''hello'')
        else if key = ''sub/y'' then Inr (bytes_of ''world'')
        else Inl (LibErr ''NoSuchKey'')),
      time_Parse = (\<lambda>s. if s = stamp then Inr 1393668000000000000 else Inl (LibErr ''cannot parse''))\<rparr>"

definition object_x :: S3Content where
  "object_x = \<lparr>Name = ''x'', LastMod = 1393668000000000000, Data = bytes_of ''hello''\<rparr>"

definition object_y :: S3Content where
  "object_y = \<lparr>Name = ''sub/y'', LastMod = 1393668000000000000, Data = bytes_of ''world''\<rparr>"

text \<open>Two keys whose tasks fail: one that the store does not hold, one with a bad timestamp.\<close>

definition key_gone :: s3_Key where
  "key_gone = \<lparr>Key = ''gone'', LastModified = stamp, Size = 0\<rparr>"

definition key_undated :: s3_Key where
  "key_undated = \<lparr>Key = ''x'', LastModified = ''yesterday'', Size = 5\<rparr>"

text \<open>A store that lists nothing, and one that holds every key (its content is the key's
  own bytes) and parses every timestamp.\<close>

definition empty_bucket :: bucket where
  "empty_bucket =
     \<lparr>bkt_List = (\<lambda>prefix delim marker max.
        Inr \<lparr>Contents = [], CommonPrefixes = [], IsTruncated = False\<rparr>),
      bkt_Get = (\<lambda>key. Inl (LibErr ''NoSuchKey'')),
      time_Parse = (\<lambda>s. Inl (LibErr ''cannot parse''))\<rparr>"



text \<open>A process that runs set-user-id: started by user 1000, with the rights of root.\<close>

definition setuid_process :: process where
  "setuid_process = \<lparr>real_uid = 1000, effective_uid = 0, real_gid = 1000, effective_gid = 0\<rparr>"


definition with_truncation :: "(string \<Rightarrow> bool) \<Rightarrow> bucket \<Rightarrow> bucket" where
  "with_truncation flag bkt =
     bkt\<lparr>bkt_List := (\<lambda>prefix delim marker max.
       case bkt_List bkt prefix delim marker max of
         Inl err \<Rightarrow> Inl err
       | Inr list \<Rightarrow> Inr (list\<lparr>IsTruncated := flag prefix\<rparr>))\<rparr>"

section \<open>The archive as a sequence of entries\<close>

text \<open>
  What \<^verbatim>\<open>tarify\<close> is expected to put on the stream for a list of objects: for each
  object, in order, the encoded header, the payload, and zero bytes up to the next block
  boundary; then the trailer of two zero blocks. \<open>archive_entries\<close> pairs each object's
  header with its payload; the second argument of the loop counts the objects, as the
  clock does.
\<close>

fun archive_entries ::
  "process \<Rightarrow> (nat \<Rightarrow> time) \<Rightarrow> nat \<Rightarrow> S3Content list \<Rightarrow> (tar_Header \<times> byte list) list"
where
  "archive_entries proc clock i [] = []"
| "archive_entries proc clock i (object # objects) =
     (TarHeader (clock i) proc object, Data object) # archive_entries proc clock (Suc i) objects"

definition padding :: "int \<Rightarrow> byte list" where
  "padding n = replicate (nat ((- n) mod blockSize)) 0"

definition entry_bytes :: "(tar_Header \<Rightarrow> error + byte list) \<Rightarrow> tar_Header \<times> byte list \<Rightarrow> byte list" where
  "entry_bytes enc e =
     (case e of (hdr, data) \<Rightarrow>
        (case enc hdr of Inr header \<Rightarrow> header | Inl err \<Rightarrow> []) @ data @ padding (hdr_Size hdr))"

definition entries_bytes :: "(tar_Header \<Rightarrow> error + byte list) \<Rightarrow> (tar_Header \<times> byte list) list \<Rightarrow> byte list" where
  "entries_bytes enc es = concat (map (entry_bytes enc) es)"

text \<open>
  A writer between two entries: no error, not closed, nothing owed for the current entry
  but its padding, which \<open>pending\<close> spells out.
\<close>

definition ready :: "tar_Writer \<Rightarrow> bool" where
  "ready tw = (tw_err tw = None \<and> \<not> tw_closed tw \<and> tw_nb tw = 0
               \<and> 0 \<le> tw_pad tw \<and> tw_pad tw < blockSize)"

definition pending :: "tar_Writer \<Rightarrow> byte list" where
  "pending tw = replicate (nat (tw_pad tw)) 0"

section \<open>Concrete writers, encoders and systems\<close>


definition name_block :: "tar_Header \<Rightarrow> error + byte list" where
  "name_block hdr = Inr (take 512 (bytes_of (hdr_Name hdr) @ replicate 512 0))"

definition magic_gz :: "byte list \<Rightarrow> byte list" where
  "magic_gz data = [31, 139] @ data"

definition demo_process :: process where
  "demo_process = \<lparr>real_uid = 1000, effective_uid = 1000, real_gid = 100, effective_gid = 100\<rparr>"

definition demo_clock :: "nat \<Rightarrow> time" where
  "demo_clock i = 1400000000000000000 + int i"

text \<open>An operating system on which every operation succeeds, and one whose disk takes
  three bytes.\<close>

definition good_sys :: opsys where
  "good_sys = \<lparr>open_fails = (\<lambda>f. None), write_takes = (\<lambda>f data. None), close_fails = (\<lambda>f. None)\<rparr>"


definition no_files :: files where
  "no_files = (\<lambda>f. None)"

section \<open>Levels that fail\<close>



section \<open>Reading an archive back\<close>

text \<open>
  Reading an archive header by header, as the format is laid out: each entry is a header,
  the payload of the size the header gives, and padding up to the next block boundary; two
  zero blocks end the archive. How a header is parsed off the front of the stream is the
  reader's side of the library: \<open>dec\<close> returns the name and the size it read and what
  follows the header. \<open>reads_back enc dec\<close> says that it reads every header the encoder
  can write, and that no written header starts with a zero block; \<open>inflates gz gunzip\<close>
  that decompressing undoes compressing.
\<close>

type_synonym header_reader = "byte list \<Rightarrow> ((string \<times> int) \<times> byte list) option"

function read_entries :: "header_reader \<Rightarrow> byte list \<Rightarrow> (string \<times> byte list) list option" where
  "read_entries dec bs =
     (if take 512 bs = zeroBlock
      then (if take 512 (drop 512 bs) = zeroBlock then Some [] else None)
      else
        (case dec bs of
           None \<Rightarrow> None
         | Some ((name, n), rest) \<Rightarrow>
             if n < 0 \<or> int (length rest) < n + (- n) mod blockSize \<or> length bs \<le> length rest
             then None
             else
               (case read_entries dec (drop (nat (n + (- n) mod blockSize)) rest) of
                  None \<Rightarrow> None
                | Some es \<Rightarrow> Some ((name, take (nat n) rest) # es))))"
  by pat_completeness auto
termination
  by (relation "measure (\<lambda>(dec, bs). length bs)") auto

declare read_entries.simps [simp del]

definition reads_back :: "(tar_Header \<Rightarrow> error + byte list) \<Rightarrow> header_reader \<Rightarrow> bool" where
  "reads_back enc dec =
     (\<forall>hdr header rest. enc hdr = Inr header \<longrightarrow>
        header \<noteq> [] \<and> take 512 (header @ rest) \<noteq> zeroBlock
        \<and> dec (header @ rest) = Some ((hdr_Name hdr, hdr_Size hdr), rest))"

definition inflates :: "(byte list \<Rightarrow> byte list) \<Rightarrow> (byte list \<Rightarrow> byte list option) \<Rightarrow> bool" where
  "inflates gz gunzip = (\<forall>data. gunzip (gz data) = Some data)"

text \<open>
  Stand-ins that keep these contracts: a header block that carries the name and the size
  (for names up to 255 bytes and sizes below 256), its reader, and the reader of the
  stand-in compressor.
\<close>

definition framed_block :: "tar_Header \<Rightarrow> error + byte list" where
  "framed_block hdr =
     (if length (hdr_Name hdr) \<le> 255 \<and> 0 \<le> hdr_Size hdr \<and> hdr_Size hdr < 256
      then Inr ([1, of_nat (length (hdr_Name hdr)), of_int (hdr_Size hdr)]
                @ bytes_of (hdr_Name hdr) @ replicate (509 - length (hdr_Name hdr)) 0)
      else Inl (LibErr ''archive/tar: header field too long''))"

definition read_framed :: header_reader where
  "read_framed bs =
     (case bs of
        m # ln # sz # r \<Rightarrow>
          if m = 1 \<and> 509 \<le> length r
          then Some ((map (\<lambda>b. char_of (unat b)) (take (unat ln) r), uint sz), drop 509 r)
          else None
      | _ \<Rightarrow> None)"

definition strip_magic :: "byte list \<Rightarrow> byte list option" where
  "strip_magic bs = (if take 2 bs = [31, 139] then Some (drop 2 bs) else None)"

section \<open>The level fetcher: failures\<close>

lemma mset_drain_errc:
  "mset (drain_errc xs) = image_mset projl (filter_mset isl (mset xs))"
  by (induction xs) (auto split: sum.splits)

lemma mset_drain_contentC:
  "mset (drain_contentC xs) = image_mset projr (filter_mset (\<lambda>x. \<not> isl x) (mset xs))"
  by (induction xs) (auto split: sum.splits)

lemma drain_errc_perm: "mset xs = mset ys \<Longrightarrow> mset (drain_errc xs) = mset (drain_errc ys)"
  by (simp add: mset_drain_errc)

lemma drain_contentC_perm:
  "mset xs = mset ys \<Longrightarrow> mset (drain_contentC xs) = mset (drain_contentC ys)"
  by (simp add: mset_drain_contentC)

lemma drain_errc_empty_iff: "drain_errc xs = [] \<longleftrightarrow> (\<forall>x \<in> set xs. \<not> isl x)"
  by (induction xs) (auto split: sum.splits)


lemma sent_perm: "reorders sched \<Longrightarrow> mset (map f (sched ks)) = mset (map f ks)"
  by (simp add: reorders_def)

lemma reorders_set: "reorders sched \<Longrightarrow> set (sched ks) = set ks"
  by (metis reorders_def set_mset_mset)

lemma reorders_length: "reorders sched \<Longrightarrow> length (sched ks) = length ks"
  by (metis reorders_def size_mset)

lemma reorders_rev: "reorders rev"
  by (simp add: reorders_def)

lemma reorders_id: "reorders (\<lambda>ks. ks)"
  by (simp add: reorders_def)

text \<open>
  C3. Whatever the order in which the tasks complete, \<^verbatim>\<open>fetchAll\<close> fails if and only if
  the task of some key fails. The error it then returns is
  \<^verbatim>\<open>fmt.Errorf("%d errors: %s", len(errs), strings.Join(errs, ","))\<close> where \<open>errs\<close>
  holds, in completion order, the failure of every failing task and nothing else: as many
  as there are failing keys. A failure is an \<open>Inl\<close>, which holds no object: the objects
  fetched at that level are not returned.
\<close>

theorem fetchAll_fails_iff_a_task_fails:
  assumes "reorders sched"
  shows "(isl (fetchAll sched bkt base keys) \<longleftrightarrow> (\<exists>k \<in> set keys. isl (doFetch bkt base k)))
    \<and> (\<forall>e. fetchAll sched bkt base keys = Inl e \<longrightarrow>
          (\<exists>errs. e = Errorf ''%d errors: %s'' [ArgInt (int (length errs)), ArgJoin errs '','']
             \<and> errs = drain_errc (map (doFetch bkt base) (sched keys))
             \<and> mset errs = mset (drain_errc (map (doFetch bkt base) keys))
             \<and> length errs = length (filter (\<lambda>k. isl (doFetch bkt base k)) keys)))"
proof -
  let ?sent = "map (doFetch bkt base) (sched keys)"
  have perm: "mset ?sent = mset (map (doFetch bkt base) keys)"
    using assms by (rule sent_perm)
  have iff: "isl (fetchAll sched bkt base keys) \<longleftrightarrow> drain_errc ?sent \<noteq> []"
    by (simp add: fetchAll_def Let_def)
  have "drain_errc ?sent \<noteq> [] \<longleftrightarrow> (\<exists>k \<in> set keys. isl (doFetch bkt base k))"
    using reorders_set [OF assms, of keys] by (auto simp: drain_errc_empty_iff)
  with iff have one:
    "isl (fetchAll sched bkt base keys) \<longleftrightarrow> (\<exists>k \<in> set keys. isl (doFetch bkt base k))"
    by simp
  have m: "mset (drain_errc ?sent) = mset (drain_errc (map (doFetch bkt base) keys))"
    using perm by (rule drain_errc_perm)
  have "size (mset (drain_errc (map (doFetch bkt base) keys)))
        = length (filter (\<lambda>k. isl (doFetch bkt base k)) keys)"
    by (induction keys) (auto split: sum.splits)
  with m have len:
    "length (drain_errc ?sent) = length (filter (\<lambda>k. isl (doFetch bkt base k)) keys)"
    by (metis size_mset)
  have two: "\<forall>e. fetchAll sched bkt base keys = Inl e \<longrightarrow>
          (\<exists>errs. e = Errorf ''%d errors: %s'' [ArgInt (int (length errs)), ArgJoin errs '','']
             \<and> errs = drain_errc (map (doFetch bkt base) (sched keys))
             \<and> mset errs = mset (drain_errc (map (doFetch bkt base) keys))
             \<and> length errs = length (filter (\<lambda>k. isl (doFetch bkt base k)) keys))"
    using m len by (auto simp: fetchAll_def Let_def split: if_splits)
  from one two show ?thesis by blast
qed

lemma Rel_x: "Rel [] ''x'' = Inr ''x''"
  by code_simp

lemma Rel_y: "Rel [] ''sub/y'' = Inr ''sub/y''"
  by code_simp

lemma Rel_gone: "Rel [] ''gone'' = Inr ''gone''"
  by code_simp



lemma doFetch_x: "doFetch demo_bucket [] key_x = Inr object_x"
  by (simp add: doFetch_def demo_bucket_def key_x_def object_x_def Rel_x stamp_def)

lemma doFetch_y: "doFetch demo_bucket [] key_y = Inr object_y"
  by (simp add: doFetch_def demo_bucket_def key_y_def object_y_def Rel_y stamp_def)

lemma doFetch_gone:
  "doFetch demo_bucket [] key_gone =
     Inl (Errorf ''failed fetch of %q: %v'' [ArgStr ''gone'', ArgErr (LibErr ''NoSuchKey'')])"
  by (simp add: doFetch_def demo_bucket_def key_gone_def Rel_gone stamp_def)

lemma doFetch_undated:
  "doFetch demo_bucket [] key_undated =
     Inl (Errorf ''failed to parse time of %q: %v''
            [ArgStr ''yesterday'', ArgErr (LibErr ''cannot parse'')])"
  by (simp add: doFetch_def demo_bucket_def key_undated_def stamp_def)

text \<open>
  Witness for C3: three keys whose tasks complete in reverse order; two of them fail.
\<close>

theorem fetchAll_fails_iff_a_task_fails_witness:
  "reorders rev
   \<and> isl (fetchAll rev demo_bucket [] [key_x, key_gone, key_undated])
   \<and> (\<exists>errs. fetchAll rev demo_bucket [] [key_x, key_gone, key_undated]
               = Inl (Errorf ''%d errors: %s'' [ArgInt (int (length errs)), ArgJoin errs '',''])
          \<and> errs = [Errorf ''failed to parse time of %q: %v''
                       [ArgStr ''yesterday'', ArgErr (LibErr ''cannot parse'')],
                     Errorf ''failed fetch of %q: %v''
                       [ArgStr ''gone'', ArgErr (LibErr ''NoSuchKey'')]]
          \<and> length errs = 2)"
proof -
  let ?keys = "[key_x, key_gone, key_undated]"
  have r: "reorders rev" by (rule reorders_rev)
  note inst = fetchAll_fails_iff_a_task_fails [OF r, of demo_bucket "[]" ?keys]
  have "\<exists>k \<in> set ?keys. isl (doFetch demo_bucket [] k)"
    by (simp add: doFetch_gone)
  with inst have fails: "isl (fetchAll rev demo_bucket [] ?keys)" by blast
  then obtain e where e: "fetchAll rev demo_bucket [] ?keys = Inl e"
    by (cases "fetchAll rev demo_bucket [] ?keys") auto
  with inst obtain errs where
    "e = Errorf ''%d errors: %s'' [ArgInt (int (length errs)), ArgJoin errs '','']"
    and "errs = drain_errc (map (doFetch demo_bucket []) (rev ?keys))"
    and "length errs = length (filter (\<lambda>k. isl (doFetch demo_bucket [] k)) ?keys)"
    by blast
  then show ?thesis
    using r fails e by (simp add: doFetch_x doFetch_gone doFetch_undated)
qed

section \<open>The level fetcher: names\<close>



section \<open>Archive entry headers\<close>

lemma filePerms_value: "uint filePerms = 420"
  by (simp add: filePerms_def os_ModePerm_def)

text \<open>
  C5, as stated, fails on the owner: \<^verbatim>\<open>TarHeader\<close> asks \<^verbatim>\<open>os.Getuid\<close> and
  \<^verbatim>\<open>os.Getgid\<close>, which return the real ids of the process, not the effective ones.
  In a set-user-id process started by user 1000 with the rights of root the header carries
  1000, and the effective ids are 0.
\<close>

theorem TarHeader_owner_is_not_effective:
  "hdr_Uid (TarHeader 0 setuid_process object_x) = 1000
   \<and> effective_uid setuid_process = 0
   \<and> hdr_Gid (TarHeader 0 setuid_process object_x) = 1000
   \<and> effective_gid setuid_process = 0"
  by (simp add: TarHeader_def setuid_process_def os_Getuid_def os_Getgid_def)

text \<open>
  C5, amended. The header of an object has the object's name, the length of its payload as
  size, the fixed mode \<^verbatim>\<open>0644\<close> (420), the object's \<^verbatim>\<open>LastMod\<close> as modification and
  change time, the time of the call as access time, the real user and group ids of the
  process as owner, and the type of a regular file.
\<close>

theorem TarHeader_fields:
  "hdr_Name (TarHeader now proc s) = Name s
   \<and> hdr_Size (TarHeader now proc s) = int (length (Data s))
   \<and> hdr_Mode (TarHeader now proc s) = uint filePerms
   \<and> uint filePerms = 420
   \<and> hdr_ModTime (TarHeader now proc s) = LastMod s
   \<and> hdr_ChangeTime (TarHeader now proc s) = LastMod s
   \<and> hdr_AccessTime (TarHeader now proc s) = now
   \<and> hdr_Uid (TarHeader now proc s) = real_uid proc
   \<and> hdr_Gid (TarHeader now proc s) = real_gid proc
   \<and> hdr_Typeflag (TarHeader now proc s) = tar_TypeReg"
  by (simp add: TarHeader_def os_Getuid_def os_Getgid_def filePerms_value)

section \<open>The path walker: what a successful walk returns\<close>

lemma fetchFolders_success:
  "fetchFolders d sched bkt root acc folders = Some (calls, Inr objs) \<Longrightarrow>
   \<exists>rs. list_all2 (\<lambda>folder r. fetchPath d sched bkt root folder = Some (fst r, Inr (snd r))) folders rs
      \<and> objs = acc @ concat (map snd rs) \<and> calls = concat (map fst rs)"
proof (induction folders arbitrary: acc calls objs)
  case Nil
  then show ?case by simp
next
  case (Cons folder folders)
  from Cons.prems obtain c1 new c2 where
    p: "fetchPath d sched bkt root folder = Some (c1, Inr new)"
    and f: "fetchFolders d sched bkt root (acc @ new) folders = Some (c2, Inr objs)"
    and c: "calls = c1 @ c2"
    by (auto split: option.splits sum.splits prod.splits)
  from Cons.IH [OF f] obtain rs where
    rs: "list_all2 (\<lambda>folder r. fetchPath d sched bkt root folder = Some (fst r, Inr (snd r))) folders rs"
    and o: "objs = (acc @ new) @ concat (map snd rs)" and c2: "c2 = concat (map fst rs)"
    by blast
  let ?rs = "(c1, new) # rs"
  have "list_all2 (\<lambda>folder r. fetchPath d sched bkt root folder = Some (fst r, Inr (snd r)))
          (folder # folders) ?rs"
    using p rs by simp
  moreover have "objs = acc @ concat (map snd ?rs)" using o by simp
  moreover have "calls = concat (map fst ?rs)" using c c2 by simp
  ultimately show ?case by blast
qed

lemma fetchPath_success:
  assumes "fetchPath n sched bkt root bktPath = Some (calls, Inr objs)"
  shows "\<exists>d list own rs. n = Suc d
      \<and> bkt_List bkt bktPath ''/'' [] 10000 = Inr list
      \<and> fetchAll sched bkt root (Contents list) = Inr own
      \<and> list_all2 (\<lambda>folder r. fetchPath d sched bkt root folder = Some (fst r, Inr (snd r)))
           (CommonPrefixes list) rs
      \<and> objs = own @ concat (map snd rs)
      \<and> calls = (bktPath, ''/'', [], 10000) # concat (map fst rs)"
proof (cases n)
  case 0
  with assms show ?thesis by simp
next
  case (Suc d)
  with assms obtain list own c where
    l: "bkt_List bkt bktPath ''/'' [] 10000 = Inr list"
    and a: "fetchAll sched bkt root (Contents list) = Inr own"
    and f: "fetchFolders d sched bkt root own (CommonPrefixes list) = Some (c, Inr objs)"
    and c: "calls = (bktPath, ''/'', [], 10000) # c"
    by (auto split: option.splits sum.splits prod.splits)
  from fetchFolders_success [OF f] Suc l a c show ?thesis by blast
qed

lemma with_truncation_Get [simp]: "bkt_Get (with_truncation flag bkt) = bkt_Get bkt"
  by (simp add: with_truncation_def)

lemma with_truncation_Parse [simp]: "time_Parse (with_truncation flag bkt) = time_Parse bkt"
  by (simp add: with_truncation_def)

lemma doFetch_with_truncation [simp]:
  "doFetch (with_truncation flag bkt) = doFetch bkt"
  by (intro ext) (simp add: doFetch_def cong: sum.case_cong)

lemma fetchAll_with_truncation [simp]:
  "fetchAll sched (with_truncation flag bkt) = fetchAll sched bkt"
  by (intro ext) (simp add: fetchAll_def)

lemma fetch_with_truncation:
  "fetchPath n sched (with_truncation flag bkt) root bktPath = fetchPath n sched bkt root bktPath"
  "fetchFolders d sched (with_truncation flag bkt) root acc folders = fetchFolders d sched bkt root acc folders"
proof (induction n sched bkt root bktPath and d sched bkt root acc folders rule: fetchPath_fetchFolders.induct)
  case (1 sched bkt root bktPath)
  then show ?case by simp
next
  case (2 d sched bkt root bktPath)
  show ?case
  proof (cases "bkt_List bkt bktPath ''/'' [] 10000")
    case (Inl e)
    then show ?thesis by (simp add: with_truncation_def)
  next
    case (Inr list)
    then have l: "bkt_List (with_truncation flag bkt) bktPath ''/'' [] 10000 = Inr (list\<lparr>IsTruncated := flag bktPath\<rparr>)"
      by (simp add: with_truncation_def)
    show ?thesis
    proof (cases "fetchAll sched bkt root (Contents list)")
      case (Inl e)
      with Inr l show ?thesis by simp
    next
      case own: (Inr own)
      from "2.IH" [OF Inr own] Inr l own show ?thesis by simp
    qed
  qed
next
  case (3 d sched bkt root contents)
  then show ?case by simp
next
  case (4 d sched bkt root contents folder folders)
  then show ?case
    by (auto split: option.splits sum.splits prod.splits)
qed

section \<open>The archive writer: what reaches the stream\<close>

lemma take_zeroBlock: "0 \<le> n \<Longrightarrow> n < blockSize \<Longrightarrow> take (nat n) zeroBlock = replicate (nat n) 0"
  by (simp add: zeroBlock_def blockSize_def min_def)

lemma io_Write_ok: "io_Write w out p = (out', n, None) \<Longrightarrow> out' = out @ p \<and> n = length p"
  by (auto simp: io_Write_def split: option.splits)

lemma io_Write_err: "io_Write w out p = (out', n, Some e) \<Longrightarrow> \<exists>m. out' = out @ take m p"
  by (auto simp: io_Write_def split: option.splits)

lemma prefix_take_append: "prefix (take m xs) (xs @ ys)"
  by (metis append_take_drop_id prefix_def append.assoc)

lemma prefix_append_take: "prefix (xs @ take m ys) (xs @ ys @ zs)"
  by (simp add: prefix_take_append)

lemma tar_Flush_ready:
  assumes "ready tw"
  shows "tw_closed (tar_Flush w tw) = False"
    and "tw_err (tar_Flush w tw) = None \<Longrightarrow>
           ready (tar_Flush w tw) \<and> tw_pad (tar_Flush w tw) = 0
           \<and> tw_out (tar_Flush w tw) = tw_out tw @ pending tw"
    and "\<exists>m. tw_out (tar_Flush w tw) = tw_out tw @ take m (pending tw)"
proof -
  from assms have f: "tw_err tw = None" "\<not> tw_closed tw" "tw_nb tw = 0" "0 \<le> tw_pad tw"
    "tw_pad tw < blockSize" by (simp_all add: ready_def)
  show "tw_closed (tar_Flush w tw) = False"
    using f by (simp add: tar_Flush_def Let_def split: prod.splits)
  show "tw_err (tar_Flush w tw) = None \<Longrightarrow>
           ready (tar_Flush w tw) \<and> tw_pad (tar_Flush w tw) = 0
           \<and> tw_out (tar_Flush w tw) = tw_out tw @ pending tw"
    using f by (auto simp: tar_Flush_def Let_def ready_def pending_def take_zeroBlock blockSize_def
        split: prod.splits dest: io_Write_ok)
  show "\<exists>m. tw_out (tar_Flush w tw) = tw_out tw @ take m (pending tw)"
  proof (cases "tw_pad tw > 0")
    case False
    with f show ?thesis by (simp add: tar_Flush_def Let_def pending_def)
  next
    case True
    obtain out nw err where iw: "io_Write w (tw_out tw) (take (nat (tw_pad tw)) zeroBlock) = (out, nw, err)"
      by (cases "io_Write w (tw_out tw) (take (nat (tw_pad tw)) zeroBlock)") auto
    have tz: "take (nat (tw_pad tw)) zeroBlock = pending tw"
      using f by (simp add: take_zeroBlock pending_def)
    have o: "tw_out (tar_Flush w tw) = out"
      using f True iw by (simp add: tar_Flush_def Let_def)
    show ?thesis
    proof (cases err)
      case None
      with iw tz have "out = tw_out tw @ pending tw" by (auto dest: io_Write_ok)
      then have "out = tw_out tw @ take (length (pending tw)) (pending tw)" by simp
      with o show ?thesis by blast
    next
      case (Some e)
      with iw tz have "\<exists>m. out = tw_out tw @ take m (pending tw)" by (auto dest: io_Write_err)
      with o show ?thesis by simp
    qed
  qed
qed


lemma tar_WriteHeader_ok:
  assumes r: "ready tw" and wh: "tar_WriteHeader w enc tw hdr = (tw1, None)"
  shows "\<exists>header. enc hdr = Inr header \<and> tw_out tw1 = tw_out tw @ pending tw @ header
           \<and> tw_err tw1 = None \<and> \<not> tw_closed tw1 \<and> tw_nb tw1 = hdr_Size hdr
           \<and> tw_pad tw1 = (- hdr_Size hdr) mod blockSize"
proof -
  let ?f = "tar_Flush w tw"
  from r have f: "tw_err tw = None" "\<not> tw_closed tw" by (simp_all add: ready_def)
  have fe: "tw_err ?f = None"
    using wh f by (auto simp: tar_WriteHeader_def Let_def split: option.splits)
  from tar_Flush_ready(2) [OF r fe] tar_Flush_ready(1) [OF r]
  have fo: "tw_out ?f = tw_out tw @ pending tw" and fc: "\<not> tw_closed ?f" by simp_all
  from wh f fe obtain header where e: "enc hdr = Inr header"
    by (cases "enc hdr") (auto simp: tar_WriteHeader_def Let_def)
  obtain out n err where iw: "io_Write w (tw_out ?f) header = (out, n, err)"
    by (cases "io_Write w (tw_out ?f) header") auto
  from wh f fe e iw have tw1: "tw1 = ?f\<lparr>tw_out := out, tw_err := err, tw_nb := hdr_Size hdr,
      tw_pad := (- hdr_Size hdr) mod blockSize\<rparr>" and "err = None"
    by (auto simp: tar_WriteHeader_def Let_def)
  with iw fo have "out = tw_out tw @ pending tw @ header" by (auto dest: io_Write_ok)
  with tw1 \<open>err = None\<close> fc e show ?thesis by simp
qed


lemma tar_Write_ok:
  assumes "tw_err tw = None" "\<not> tw_closed tw" "tw_nb tw = int (length b)"
    and "tar_Write w tw b = (tw2, n, None)"
  shows "tw_out tw2 = tw_out tw @ b \<and> tw_nb tw2 = 0 \<and> tw_err tw2 = None \<and> \<not> tw_closed tw2
         \<and> tw_pad tw2 = tw_pad tw"
proof -
  obtain out m e where iw: "io_Write w (tw_out tw) b = (out, m, e)"
    by (cases "io_Write w (tw_out tw) b") auto
  with assms have "e = None" and "tw2 = tw\<lparr>tw_out := out, tw_err := e, tw_nb := tw_nb tw - int m\<rparr>"
    by (auto simp: tar_Write_def Let_def)
  moreover from iw \<open>e = None\<close> have "out = tw_out tw @ b" "m = length b" by (auto dest: io_Write_ok)
  ultimately show ?thesis using assms by simp
qed



lemma pad_range: "0 \<le> (- n) mod blockSize \<and> (- n) mod blockSize < blockSize"
  by (simp add: blockSize_def)

lemma entry_written:
  assumes r: "ready tw"
    and wh: "tar_WriteHeader w enc tw (TarHeader now proc object) = (tw1, None)"
    and wr: "tar_Write w tw1 (Data object) = (tw2, n, None)"
  shows "ready tw2
         \<and> (\<exists>x. tw_out tw2 = tw_out tw @ x
                \<and> x @ pending tw2
                    = pending tw @ entry_bytes enc (TarHeader now proc object, Data object))
         \<and> \<not> isl (enc (TarHeader now proc object))"
proof -
  let ?hdr = "TarHeader now proc object"
  from tar_WriteHeader_ok [OF r wh] obtain header where
    e: "enc ?hdr = Inr header" and o1: "tw_out tw1 = tw_out tw @ pending tw @ header"
    and s1: "tw_err tw1 = None" "\<not> tw_closed tw1" "tw_nb tw1 = hdr_Size ?hdr"
    and p1: "tw_pad tw1 = (- hdr_Size ?hdr) mod blockSize"
    by blast
  have sz: "hdr_Size ?hdr = int (length (Data object))" by (simp add: TarHeader_def)
  from s1 sz have nb: "tw_nb tw1 = int (length (Data object))" by simp
  from tar_Write_ok [OF s1(1) s1(2) nb wr]
  have o2: "tw_out tw2 = tw_out tw1 @ Data object" and s2: "tw_nb tw2 = 0" "tw_err tw2 = None"
    "\<not> tw_closed tw2" and p2: "tw_pad tw2 = tw_pad tw1" by simp_all
  from s2 p2 p1 pad_range [of "hdr_Size ?hdr"] have rd: "ready tw2" by (simp add: ready_def)
  have pe: "pending tw2 = padding (hdr_Size ?hdr)"
    using p2 p1 by (simp add: pending_def padding_def)
  let ?x = "pending tw @ header @ Data object"
  have a: "tw_out tw2 = tw_out tw @ ?x" using o2 o1 by simp
  have b: "?x @ pending tw2 = pending tw @ entry_bytes enc (?hdr, Data object)"
    using pe e by (simp add: entry_bytes_def)
  from a b have "\<exists>x. tw_out tw2 = tw_out tw @ x
      \<and> x @ pending tw2 = pending tw @ entry_bytes enc (?hdr, Data object)"
    by (intro exI [of _ ?x] conjI)
  with rd e show ?thesis by simp
qed

lemma tarify_loop_ok:
  "ready tw \<Longrightarrow> tarify_loop w enc proc clock i tw objects = (tw', None) \<Longrightarrow>
     ready tw'
     \<and> tw_out tw' @ pending tw'
         = tw_out tw @ pending tw @ entries_bytes enc (archive_entries proc clock i objects)
     \<and> (\<forall>e \<in> set (archive_entries proc clock i objects). \<not> isl (enc (fst e)))"
proof (induction objects arbitrary: i tw)
  case Nil
  then show ?case by (simp add: entries_bytes_def)
next
  case (Cons object objects)
  let ?hdr = "TarHeader (clock i) proc object"
  from Cons.prems(2) obtain tw1 tw2 n where
    wh: "tar_WriteHeader w enc tw ?hdr = (tw1, None)"
    and wr: "tar_Write w tw1 (Data object) = (tw2, n, None)"
    and rest: "tarify_loop w enc proc clock (Suc i) tw2 objects = (tw', None)"
    by (auto split: prod.splits option.splits)
  from entry_written [OF Cons.prems(1) wh wr] obtain x where r2: "ready tw2"
    and x: "tw_out tw2 = tw_out tw @ x" "x @ pending tw2 = pending tw @ entry_bytes enc (?hdr, Data object)"
    and e: "\<not> isl (enc ?hdr)" by blast
  from x have o2: "tw_out tw2 @ pending tw2 = tw_out tw @ pending tw @ entry_bytes enc (?hdr, Data object)"
    by simp
  from Cons.IH [OF r2 rest]
  have "ready tw'"
    and "tw_out tw' @ pending tw'
          = (tw_out tw2 @ pending tw2) @ entries_bytes enc (archive_entries proc clock (Suc i) objects)"
    and "\<forall>e \<in> set (archive_entries proc clock (Suc i) objects). \<not> isl (enc (fst e))"
    by simp_all
  with o2 e show ?case by (simp add: entries_bytes_def)
qed

lemma prefix_extend:
  "prefix s (p @ e) \<Longrightarrow> prefix s (p @ e @ zs)"
  by (metis append.assoc prefix_prefix)


lemma ready_NewWriter: "ready (tar_NewWriter out) \<and> pending (tar_NewWriter out) = []
    \<and> tw_out (tar_NewWriter out) = out"
  by (simp add: ready_def tar_NewWriter_def pending_def blockSize_def)

lemma tar_Close_ok:
  assumes r: "ready tw" and cl: "tar_Close w tw = (tw', None)"
  shows "tw_out tw' = tw_out tw @ pending tw @ zeroBlock @ zeroBlock \<and> tw_closed tw'"
proof -
  let ?f = "tar_Flush w tw"
  from r have f: "tw_err tw = None" "\<not> tw_closed tw" by (simp_all add: ready_def)
  have fe: "tw_err ?f = None"
    using cl f by (auto simp: tar_Close_def Let_def split: option.splits)
  from tar_Flush_ready(2) [OF r fe] have fo: "tw_out ?f = tw_out tw @ pending tw" by simp
  obtain out1 n1 e1 where w1: "io_Write w (tw_out ?f) zeroBlock = (out1, n1, e1)"
    by (cases "io_Write w (tw_out ?f) zeroBlock") auto
  from cl f fe w1 have e1: "e1 = None"
    by (auto simp: tar_Close_def Let_def split: option.splits)
  obtain out2 n2 e2 where w2: "io_Write w out1 zeroBlock = (out2, n2, e2)"
    by (cases "io_Write w out1 zeroBlock") auto
  from cl f fe w1 e1 w2 have e2: "e2 = None"
    and tw': "tw' = ?f\<lparr>tw_closed := True, tw_out := out2, tw_err := e2\<rparr>"
    by (auto simp: tar_Close_def Let_def)
  from w1 e1 fo have "out1 = tw_out tw @ pending tw @ zeroBlock" by (auto dest: io_Write_ok)
  moreover from w2 e2 have "out2 = out1 @ zeroBlock" by (auto dest: io_Write_ok)
  ultimately show ?thesis using tw' by simp
qed

lemma tar_Close_closes_or_fails:
  "ready tw \<Longrightarrow> tar_Close w tw = (tw', r) \<Longrightarrow> tw_closed tw'"
  by (auto simp: tar_Close_def Let_def ready_def split: option.splits prod.splits)

lemma tarify_ok:
  assumes "tarify w enc proc clock out objects = (tarw, None)"
  shows "tw_out tarw
           = out @ entries_bytes enc (archive_entries proc clock 0 objects) @ zeroBlock @ zeroBlock
         \<and> tw_closed tarw
         \<and> (\<forall>e \<in> set (archive_entries proc clock 0 objects). \<not> isl (enc (fst e)))"
proof -
  from assms obtain tw where
    loop: "tarify_loop w enc proc clock 0 (tar_NewWriter out) objects = (tw, None)"
    and cl: "tar_Close w tw = (tarw, None)"
    by (auto simp: tarify_def split: prod.splits option.splits)
  from tarify_loop_ok [OF _ loop] ready_NewWriter [of out]
  have r: "ready tw"
    and o: "tw_out tw @ pending tw = out @ entries_bytes enc (archive_entries proc clock 0 objects)"
    and e: "\<forall>e \<in> set (archive_entries proc clock 0 objects). \<not> isl (enc (fst e))"
    by simp_all
  from tar_Close_ok [OF r cl]
  have "tw_out tarw = (tw_out tw @ pending tw) @ zeroBlock @ zeroBlock" and "tw_closed tarw"
    by simp_all
  with o e show ?thesis by simp
qed

lemma io_Write_buffer: "io_Write bytes_Buffer out p = (out @ p, length p, None)"
  by (simp add: io_Write_def bytes_Buffer_def)

lemma tar_Flush_buffer: "ready tw \<Longrightarrow> tw_err (tar_Flush bytes_Buffer tw) = None"
  by (simp add: tar_Flush_def Let_def ready_def io_Write_buffer)

lemma tar_WriteHeader_buffer:
  "ready tw \<Longrightarrow> enc hdr = Inr header \<Longrightarrow> snd (tar_WriteHeader bytes_Buffer enc tw hdr) = None"
  by (simp add: tar_WriteHeader_def Let_def tar_Flush_buffer io_Write_buffer ready_def)

lemma tar_Write_buffer:
  "\<not> tw_closed tw \<Longrightarrow> tw_nb tw = int (length b) \<Longrightarrow> snd (snd (tar_Write bytes_Buffer tw b)) = None"
  by (simp add: tar_Write_def Let_def io_Write_buffer)

lemma tar_Close_buffer: "ready tw \<Longrightarrow> snd (tar_Close bytes_Buffer tw) = None"
  by (simp add: tar_Close_def Let_def tar_Flush_buffer io_Write_buffer ready_def)

lemma tarify_loop_buffer:
  "ready tw \<Longrightarrow> \<forall>e \<in> set (archive_entries proc clock i objects). \<not> isl (enc (fst e)) \<Longrightarrow>
     snd (tarify_loop bytes_Buffer enc proc clock i tw objects) = None"
proof (induction objects arbitrary: i tw)
  case Nil
  then show ?case by simp
next
  case (Cons object objects)
  let ?hdr = "TarHeader (clock i) proc object"
  from Cons.prems(2) obtain header where en: "enc ?hdr = Inr header"
    by (cases "enc ?hdr") auto
  obtain tw1 r1 where wh: "tar_WriteHeader bytes_Buffer enc tw ?hdr = (tw1, r1)"
    by (cases "tar_WriteHeader bytes_Buffer enc tw ?hdr") auto
  with tar_WriteHeader_buffer [of tw enc ?hdr header] Cons.prems(1) en have r1: "r1 = None" by simp
  from tar_WriteHeader_ok [OF Cons.prems(1)] wh r1
  have s1: "\<not> tw_closed tw1" "tw_nb tw1 = hdr_Size ?hdr" by auto
  then have nb: "tw_nb tw1 = int (length (Data object))" by (simp add: TarHeader_def)
  obtain tw2 n r2 where wr: "tar_Write bytes_Buffer tw1 (Data object) = (tw2, n, r2)"
    by (cases "tar_Write bytes_Buffer tw1 (Data object)") auto
  with tar_Write_buffer [OF s1(1) nb] have r2: "r2 = None" by simp
  from entry_written [OF Cons.prems(1)] wh r1 wr r2 have rd: "ready tw2" by blast
  from Cons.prems(2) have "\<forall>e \<in> set (archive_entries proc clock (Suc i) objects). \<not> isl (enc (fst e))"
    by simp
  from Cons.IH [OF rd this] wh r1 wr r2 show ?case by simp
qed

lemma tarify_buffer:
  assumes "\<forall>e \<in> set (archive_entries proc clock 0 objects). \<not> isl (enc (fst e))"
  shows "\<exists>tarw. tarify bytes_Buffer enc proc clock out objects = (tarw, None)
           \<and> tw_out tarw
               = out @ entries_bytes enc (archive_entries proc clock 0 objects) @ zeroBlock @ zeroBlock"
proof -
  obtain tw r where loop: "tarify_loop bytes_Buffer enc proc clock 0 (tar_NewWriter out) objects = (tw, r)"
    by (cases "tarify_loop bytes_Buffer enc proc clock 0 (tar_NewWriter out) objects") auto
  from tarify_loop_buffer [OF _ assms, of "tar_NewWriter out"] ready_NewWriter [of out] loop
  have r: "r = None" by simp
  from tarify_loop_ok [OF _ loop [unfolded r]] ready_NewWriter [of out] have rd: "ready tw" by simp
  obtain tarw r' where cl: "tar_Close bytes_Buffer tw = (tarw, r')"
    by (cases "tar_Close bytes_Buffer tw") auto
  with tar_Close_buffer [OF rd] have r': "r' = None" by simp
  from loop r cl r' have t: "tarify bytes_Buffer enc proc clock out objects = (tarw, None)"
    by (simp add: tarify_def)
  from tarify_ok [OF t] t show ?thesis by blast
qed


lemma name_block_x: "name_block (TarHeader now proc object_x) = Inr (bytes_of ''x'' @ replicate 511 0)"
  by (simp add: name_block_def TarHeader_def object_x_def bytes_of_def)



section \<open>Order of the objects\<close>

lemma reorders_single: "reorders sched \<Longrightarrow> sched [k] = [k]"
  by (metis reorders_def mset.simps(1) mset.simps(2) mset_single_iff_right)

lemma fetchAll_single:
  "reorders sched \<Longrightarrow> doFetch bkt base k = Inr c \<Longrightarrow> fetchAll sched bkt base [k] = Inr [c]"
  by (simp add: fetchAll_def reorders_single)

lemma demo_List_root:
  "bkt_List demo_bucket [] ''/'' [] 10000
     = Inr \<lparr>Contents = [key_x], CommonPrefixes = [''sub/''], IsTruncated = False\<rparr>"
  by (simp add: demo_bucket_def)

lemma demo_List_sub:
  "bkt_List demo_bucket ''sub/'' ''/'' [] 10000
     = Inr \<lparr>Contents = [key_y], CommonPrefixes = [], IsTruncated = False\<rparr>"
  by (simp add: demo_bucket_def)

lemma demo_walk:
  assumes "reorders sched"
  shows "fetchPath (Suc (Suc d)) sched demo_bucket [] []
           = Some ([([], ''/'', [], 10000), (''sub/'', ''/'', [], 10000)], Inr [object_x, object_y])"
proof -
  have x: "fetchAll sched demo_bucket [] [key_x] = Inr [object_x]"
    using assms doFetch_x by (rule fetchAll_single)
  have y: "fetchAll sched demo_bucket [] [key_y] = Inr [object_y]"
    using assms doFetch_y by (rule fetchAll_single)
  have sub: "fetchPath (Suc d) sched demo_bucket [] ''sub/''
               = Some ([(''sub/'', ''/'', [], 10000)], Inr [object_y])"
    by (subst fetchPath.simps) (simp add: demo_List_sub y del: fetchPath.simps)
  show ?thesis
    by (subst fetchPath.simps) (simp add: demo_List_root x sub del: fetchPath.simps)
qed

lemma padding_5: "padding 5 = replicate 507 0"
  by (simp add: padding_def blockSize_def)

lemma demo_archive:
  assumes "enc (TarHeader (clock 0) proc object_x) = Inr hx"
    and "enc (TarHeader (clock 1) proc object_y) = Inr hy"
  shows "\<exists>tarw. tarify bytes_Buffer enc proc clock [] [object_x, object_y] = (tarw, None)
           \<and> tw_out tarw = hx @ bytes_of ''hello'' @ replicate 507 0
                          @ hy @ bytes_of ''world'' @ replicate 507 0 @ zeroBlock @ zeroBlock"
proof -
  have sx: "\<And>now. hdr_Size (TarHeader now proc object_x) = 5"
    by (simp add: TarHeader_def object_x_def bytes_of_def)
  have sy: "\<And>now. hdr_Size (TarHeader now proc object_y) = 5"
    by (simp add: TarHeader_def object_y_def bytes_of_def)
  have dx: "Data object_x = bytes_of ''hello''" by (simp add: object_x_def)
  have dy: "Data object_y = bytes_of ''world''" by (simp add: object_y_def)
  have ok: "\<forall>e \<in> set (archive_entries proc clock 0 [object_x, object_y]). \<not> isl (enc (fst e))"
    using assms by simp
  have "entries_bytes enc (archive_entries proc clock 0 [object_x, object_y])
          = hx @ bytes_of ''hello'' @ replicate 507 0 @ hy @ bytes_of ''world'' @ replicate 507 0"
    using assms dx dy by (simp add: entries_bytes_def entry_bytes_def sx sy padding_5)
  with tarify_buffer [OF ok, of "[]"] show ?thesis by simp
qed

text \<open>
  C1. A walk that succeeds returns the objects of the level's own keys, as
  \<^verbatim>\<open>fetchAll\<close> returned them, followed by what the walks of the child prefixes
  returned, one after the other in the order of \<^verbatim>\<open>list.CommonPrefixes\<close>. In the
  scenario (leaf \<^verbatim>\<open>x\<close> with content \<^verbatim>\<open>hello\<close> at the root, leaf
  \<^verbatim>\<open>sub/y\<close> with content \<^verbatim>\<open>world\<close> under \<^verbatim>\<open>sub/\<close>) every schedule and
  every depth from 2 on give the objects \<^verbatim>\<open>x\<close>, \<^verbatim>\<open>sub/y\<close> in this order, and
  the archive holds the entry of \<^verbatim>\<open>x\<close> (size 5) before the entry of \<^verbatim>\<open>sub/y\<close>
  (size 5), whatever the header encoding, as long as it accepts both headers.
\<close>

theorem fetchPath_leaves_before_children:
  "(fetchPath n sched bkt root bktPath = Some (calls, Inr objs) \<longrightarrow>
      (\<exists>d list own rs. n = Suc d
         \<and> bkt_List bkt bktPath ''/'' [] 10000 = Inr list
         \<and> fetchAll sched bkt root (Contents list) = Inr own
         \<and> list_all2 (\<lambda>folder r. fetchPath d sched bkt root folder = Some (fst r, Inr (snd r)))
              (CommonPrefixes list) rs
         \<and> objs = own @ concat (map snd rs)))
   \<and> (reorders sched \<longrightarrow>
        fetchPath (Suc (Suc m)) sched demo_bucket [] []
          = Some ([([], ''/'', [], 10000), (''sub/'', ''/'', [], 10000)], Inr [object_x, object_y]))
   \<and> (enc (TarHeader (clock 0) proc object_x) = Inr hx
        \<and> enc (TarHeader (clock 1) proc object_y) = Inr hy \<longrightarrow>
        (\<exists>tarw. tarify bytes_Buffer enc proc clock [] [object_x, object_y] = (tarw, None)
           \<and> tw_out tarw = hx @ bytes_of ''hello'' @ replicate 507 0
                          @ hy @ bytes_of ''world'' @ replicate 507 0 @ zeroBlock @ zeroBlock)
        \<and> hdr_Name (TarHeader (clock 0) proc object_x) = ''x''
        \<and> hdr_Size (TarHeader (clock 0) proc object_x) = 5
        \<and> hdr_Name (TarHeader (clock 1) proc object_y) = ''sub/y''
        \<and> hdr_Size (TarHeader (clock 1) proc object_y) = 5)"
proof (intro conjI impI)
  assume "fetchPath n sched bkt root bktPath = Some (calls, Inr objs)"
  from fetchPath_success [OF this]
  show "\<exists>d list own rs. n = Suc d
         \<and> bkt_List bkt bktPath ''/'' [] 10000 = Inr list
         \<and> fetchAll sched bkt root (Contents list) = Inr own
         \<and> list_all2 (\<lambda>folder r. fetchPath d sched bkt root folder = Some (fst r, Inr (snd r)))
              (CommonPrefixes list) rs
         \<and> objs = own @ concat (map snd rs)"
    by blast
next
  assume "reorders sched"
  then show "fetchPath (Suc (Suc m)) sched demo_bucket [] []
          = Some ([([], ''/'', [], 10000), (''sub/'', ''/'', [], 10000)], Inr [object_x, object_y])"
    by (rule demo_walk)
next
  assume "enc (TarHeader (clock 0) proc object_x) = Inr hx
        \<and> enc (TarHeader (clock 1) proc object_y) = Inr hy"
  then show "\<exists>tarw. tarify bytes_Buffer enc proc clock [] [object_x, object_y] = (tarw, None)
           \<and> tw_out tarw = hx @ bytes_of ''hello'' @ replicate 507 0
                          @ hy @ bytes_of ''world'' @ replicate 507 0 @ zeroBlock @ zeroBlock"
    using demo_archive by blast
qed (simp_all add: TarHeader_def object_x_def object_y_def bytes_of_def)

lemma name_block_y: "name_block (TarHeader now proc object_y) = Inr (bytes_of ''sub/y'' @ replicate 507 0)"
  by (simp add: name_block_def TarHeader_def object_y_def bytes_of_def)

text \<open>Witness for C1: the scenario, with tasks completing in reverse order and the
  stand-in encoder.\<close>

theorem fetchPath_leaves_before_children_witness:
  "fetchPath 2 rev demo_bucket [] []
     = Some ([([], ''/'', [], 10000), (''sub/'', ''/'', [], 10000)], Inr [object_x, object_y])
   \<and> (\<exists>d list own rs. 2 = Suc d
         \<and> bkt_List demo_bucket [] ''/'' [] 10000 = Inr list
         \<and> fetchAll rev demo_bucket [] (Contents list) = Inr own
         \<and> list_all2 (\<lambda>folder r. fetchPath d rev demo_bucket [] folder = Some (fst r, Inr (snd r)))
              (CommonPrefixes list) rs
         \<and> [object_x, object_y] = own @ concat (map snd rs))
   \<and> reorders rev
   \<and> (\<exists>tarw. tarify bytes_Buffer name_block demo_process demo_clock [] [object_x, object_y] = (tarw, None)
           \<and> tw_out tarw = (bytes_of ''x'' @ replicate 511 0) @ bytes_of ''hello'' @ replicate 507 0
                          @ (bytes_of ''sub/y'' @ replicate 507 0) @ bytes_of ''world'' @ replicate 507 0
                          @ zeroBlock @ zeroBlock)"
proof -
  note inst = fetchPath_leaves_before_children [of 2 rev demo_bucket "[]" "[]"
      "[([], ''/'', [], 10000), (''sub/'', ''/'', [], 10000)]" "[object_x, object_y]" 0
      name_block demo_clock demo_process "bytes_of ''x'' @ replicate 511 0"
      "bytes_of ''sub/y'' @ replicate 507 0"]
  have r: "reorders rev" by (rule reorders_rev)
  with inst have walk: "fetchPath 2 rev demo_bucket [] []
     = Some ([([], ''/'', [], 10000), (''sub/'', ''/'', [], 10000)], Inr [object_x, object_y])"
    by (simp add: numeral_2_eq_2)
  from inst walk have parts: "\<exists>d list own rs. 2 = Suc d
         \<and> bkt_List demo_bucket [] ''/'' [] 10000 = Inr list
         \<and> fetchAll rev demo_bucket [] (Contents list) = Inr own
         \<and> list_all2 (\<lambda>folder r. fetchPath d rev demo_bucket [] folder = Some (fst r, Inr (snd r)))
              (CommonPrefixes list) rs
         \<and> [object_x, object_y] = own @ concat (map snd rs)"
    by blast
  have "name_block (TarHeader (demo_clock 0) demo_process object_x) = Inr (bytes_of ''x'' @ replicate 511 0)
      \<and> name_block (TarHeader (demo_clock 1) demo_process object_y) = Inr (bytes_of ''sub/y'' @ replicate 507 0)"
    by (simp add: name_block_x name_block_y)
  with inst have "\<exists>tarw. tarify bytes_Buffer name_block demo_process demo_clock [] [object_x, object_y] = (tarw, None)
           \<and> tw_out tarw = (bytes_of ''x'' @ replicate 511 0) @ bytes_of ''hello'' @ replicate 507 0
                          @ (bytes_of ''sub/y'' @ replicate 507 0) @ bytes_of ''world'' @ replicate 507 0
                          @ zeroBlock @ zeroBlock"
    by blast
  with walk parts r show ?thesis by blast
qed

section \<open>The path walker: listing calls and failing levels\<close>



lemma call_shape:
  "fetchPath n sched bkt root bktPath = Some (calls, r) \<Longrightarrow>
     \<forall>c \<in> set calls. \<exists>p. c = (p, ''/'', [], 10000)"
  "fetchFolders d sched bkt root acc folders = Some (calls, r) \<Longrightarrow>
     \<forall>c \<in> set calls. \<exists>p. c = (p, ''/'', [], 10000)"
proof (induction n sched bkt root bktPath and d sched bkt root acc folders
    arbitrary: calls r and calls r rule: fetchPath_fetchFolders.induct)
  case (1 sched bkt root bktPath)
  then show ?case by simp
next
  case (2 d sched bkt root bktPath)
  show ?case
  proof (cases "bkt_List bkt bktPath ''/'' [] 10000")
    case (Inl e)
    with "2.prems" show ?thesis by auto
  next
    case (Inr list)
    show ?thesis
    proof (cases "fetchAll sched bkt root (Contents list)")
      case (Inl e)
      with "2.prems" Inr show ?thesis by auto
    next
      case own: (Inr own)
      from "2.prems" Inr own obtain cs where
        f: "fetchFolders d sched bkt root own (CommonPrefixes list) = Some (cs, r)"
        and c: "calls = (bktPath, ''/'', [], 10000) # cs"
        by (auto split: option.splits prod.splits)
      from "2.IH" [OF Inr own f] c show ?thesis by simp
    qed
  qed
next
  case (3 d sched bkt root contents)
  then show ?case by simp
next
  case (4 d sched bkt root contents folder folders)
  from "4.prems" obtain c1 r1 where p: "fetchPath d sched bkt root folder = Some (c1, r1)"
    by (auto split: option.splits prod.splits)
  note ih1 = "4.IH"(1) [OF p]
  show ?case
  proof (cases r1)
    case (Inl e)
    with p "4.prems" have "calls = c1" by simp
    with ih1 show ?thesis by simp
  next
    case (Inr new)
    with p "4.prems" obtain c2 where
      f: "fetchFolders d sched bkt root (contents @ new) folders = Some (c2, r)"
      and c: "calls = c1 @ c2"
      by (auto split: option.splits prod.splits)
    from "4.IH"(2) [OF p [unfolded Inr] _ _ f] ih1 c show ?thesis by auto
  qed
qed

lemma first_call:
  "fetchPath n sched bkt root bktPath = Some (calls, r) \<Longrightarrow>
     \<exists>rest. calls = (bktPath, ''/'', [], 10000) # rest"
  by (cases n) (auto split: sum.splits option.splits prod.splits)






lemma more_depth:
  "fetchPath n sched bkt root bktPath = Some res \<Longrightarrow>
     fetchPath (Suc n) sched bkt root bktPath = Some res"
  "fetchFolders d sched bkt root acc folders = Some res \<Longrightarrow>
     fetchFolders (Suc d) sched bkt root acc folders = Some res"
proof (induction n sched bkt root bktPath and d sched bkt root acc folders
    arbitrary: res and res rule: fetchPath_fetchFolders.induct)
  case (1 sched bkt root bktPath)
  then show ?case by simp
next
  case (2 d sched bkt root bktPath)
  show ?case
  proof (cases "bkt_List bkt bktPath ''/'' [] 10000")
    case (Inl e)
    with "2.prems" show ?thesis by simp
  next
    case (Inr list)
    show ?thesis
    proof (cases "fetchAll sched bkt root (Contents list)")
      case (Inl e)
      with "2.prems" Inr show ?thesis by simp
    next
      case own: (Inr own)
      from "2.prems" Inr own obtain x where
        f: "fetchFolders d sched bkt root own (CommonPrefixes list) = Some x"
        by (auto split: option.splits)
      from "2.IH" [OF Inr own f] have "fetchFolders (Suc d) sched bkt root own (CommonPrefixes list) = Some x" .
      with "2.prems" Inr own f show ?thesis
        by (subst fetchPath.simps) (auto simp del: fetchFolders.simps)
    qed
  qed
next
  case (3 d sched bkt root contents)
  then show ?case by simp
next
  case (4 d sched bkt root contents folder folders)
  from "4.prems" obtain c1 r1 where p: "fetchPath d sched bkt root folder = Some (c1, r1)"
    by (auto split: option.splits prod.splits)
  from "4.IH"(1) [OF p] have p': "fetchPath (Suc d) sched bkt root folder = Some (c1, r1)" .
  show ?case
  proof (cases r1)
    case (Inl e)
    with p p' "4.prems" show ?thesis
      by (subst fetchFolders.simps) (auto simp del: fetchPath.simps)
  next
    case (Inr new)
    with p "4.prems" obtain x where
      f: "fetchFolders d sched bkt root (contents @ new) folders = Some x"
      by (auto split: option.splits)
    from "4.IH"(2) [OF p [unfolded Inr] _ _ f]
    have "fetchFolders (Suc d) sched bkt root (contents @ new) folders = Some x" by simp
    with p p' Inr f "4.prems" show ?thesis
      by (subst fetchFolders.simps) (auto simp del: fetchPath.simps)
  qed
qed

section \<open>One entry per key\<close>

lemma archive_entries_length [simp]: "length (archive_entries proc clock i objects) = length objects"
  by (induction objects arbitrary: i) simp_all


lemma archive_entries_sizes:
  "\<forall>e \<in> set (archive_entries proc clock i objects). hdr_Size (fst e) = int (length (snd e))"
  by (induction objects arbitrary: i) (simp_all add: TarHeader_def)




section \<open>One listing call per level\<close>

text \<open>
  C8. Every listing call of a walk asks for the delimiter \<^verbatim>\<open>/\<close>, no marker and at
  most 10000 keys, so none of them continues an earlier listing; the first call is the one
  for the path of the walk, and in a walk that succeeds the calls are that one call followed
  by the calls of the walks of the child prefixes, in order: one call per level. The keys
  fetched and the prefixes walked are those of that one response. The truncation flag of a
  response is never looked at: a store that answers with other flags gives the same result,
  error or not.
\<close>

theorem fetchPath_lists_each_level_once:
  "(fetchPath n sched bkt root bktPath = Some (calls, r) \<longrightarrow>
      (\<forall>c \<in> set calls. \<exists>p. c = (p, ''/'', [], 10000))
      \<and> (\<exists>rest. calls = (bktPath, ''/'', [], 10000) # rest))
   \<and> (fetchPath n sched bkt root bktPath = Some (calls, Inr objs) \<longrightarrow>
        (\<exists>d list own rs. n = Suc d
           \<and> bkt_List bkt bktPath ''/'' [] 10000 = Inr list
           \<and> fetchAll sched bkt root (Contents list) = Inr own
           \<and> list_all2 (\<lambda>folder r. fetchPath d sched bkt root folder = Some (fst r, Inr (snd r)))
                (CommonPrefixes list) rs
           \<and> objs = own @ concat (map snd rs)
           \<and> calls = (bktPath, ''/'', [], 10000) # concat (map fst rs)))
   \<and> fetchPath n sched (with_truncation flag bkt) root bktPath = fetchPath n sched bkt root bktPath"
  using call_shape(1) [of n sched bkt root bktPath calls r]
    first_call [of n sched bkt root bktPath calls r]
    fetchPath_success [of n sched bkt root bktPath calls objs]
    fetch_with_truncation(1) [of n sched flag bkt root bktPath]
  by blast

lemma truncated_List_root:
  "bkt_List (with_truncation (\<lambda>p. True) demo_bucket) [] ''/'' [] 10000
     = Inr \<lparr>Contents = [key_x], CommonPrefixes = [''sub/''], IsTruncated = True\<rparr>"
  by (simp add: with_truncation_def demo_List_root)

text \<open>Witness for C8: the scenario's store with every listing marked as truncated.\<close>

theorem fetchPath_lists_each_level_once_witness:
  "bkt_List (with_truncation (\<lambda>p. True) demo_bucket) [] ''/'' [] 10000
     = Inr \<lparr>Contents = [key_x], CommonPrefixes = [''sub/''], IsTruncated = True\<rparr>
   \<and> fetchPath 2 rev (with_truncation (\<lambda>p. True) demo_bucket) [] []
       = Some ([([], ''/'', [], 10000), (''sub/'', ''/'', [], 10000)], Inr [object_x, object_y])
   \<and> (\<exists>rest. [([], ''/'', [], 10000), (''sub/'', ''/'', [], 10000)] = ([], ''/'', [], 10000) # rest)"
proof -
  let ?calls = "[([], ''/'', [], 10000), (''sub/'', ''/'', [], 10000)]"
  note inst = fetchPath_lists_each_level_once [of 2 rev demo_bucket "[]" "[]" ?calls
      "Inr [object_x, object_y]" "[object_x, object_y]" "\<lambda>p. True"]
  have walk: "fetchPath 2 rev demo_bucket [] [] = Some (?calls, Inr [object_x, object_y])"
    using demo_walk [OF reorders_rev, of 0] by (simp add: numeral_2_eq_2)
  with inst have "fetchPath 2 rev (with_truncation (\<lambda>p. True) demo_bucket) [] []
       = Some (?calls, Inr [object_x, object_y])" by simp
  moreover from inst walk have "\<exists>rest. ?calls = ([], ''/'', [], 10000) # rest" by blast
  ultimately show ?thesis using truncated_List_root by blast
qed

section \<open>The empty namespace\<close>

lemma reorders_Nil: "reorders sched \<Longrightarrow> sched [] = []"
  by (metis reorders_def mset_zero_iff_right)

lemma tarify_nothing:
  "tarify bytes_Buffer enc proc clock [] []
     = (\<lparr>tw_out = replicate 1024 0, tw_err = None, tw_nb = 0, tw_pad = 0, tw_closed = True\<rparr>, None)"
  by (simp add: tarify_def tar_NewWriter_def tar_Close_def tar_Flush_def Let_def io_Write_buffer
      zeroBlock_def flip: replicate_add)

text \<open>
  C9. When the listing of the root returns no key and no prefix, the walk returns no object
  after that one call; \<^verbatim>\<open>tarify\<close> writes no header (the header encoding is not even
  asked) and closes the archive, which is the trailer alone: two zero blocks, 1024 zero
  bytes. \<^verbatim>\<open>main\<close> hands the compressed trailer to \<^verbatim>\<open>ioutil.WriteFile\<close>, and
  where the file system takes it the run ends with the file holding exactly that.
\<close>

theorem empty_namespace_gives_empty_archive:
  assumes "reorders sched"
    and "bkt_List bkt bktPath ''/'' [] 10000 = Inr list"
    and "Contents list = []" and "CommonPrefixes list = []"
  shows "fetchPath (Suc d) sched bkt bktPath bktPath = Some ([(bktPath, ''/'', [], 10000)], Inr [])
    \<and> (\<exists>tarw. tarify bytes_Buffer enc proc clock [] [] = (tarw, None)
          \<and> tw_out tarw = zeroBlock @ zeroBlock \<and> tw_out tarw = replicate 1024 0 \<and> tw_closed tarw)
    \<and> main_run (Suc d) sched bkt enc gz proc clock sys fs bktPath tarDst
        = Some (case ioutil_WriteFile sys fs tarDst (gz (replicate 1024 0)) of
                  (fs', Some err) \<Rightarrow>
                    (fs', Fatal ''writing tar/gzip buffer to %q, %v'' [ArgStr tarDst, ArgErr err])
                | (fs', None) \<Rightarrow> (fs', Saved))
    \<and> (open_fails sys tarDst = None \<and> write_takes sys tarDst (gz (replicate 1024 0)) = None
        \<and> close_fails sys tarDst = None \<longrightarrow>
          main_run (Suc d) sched bkt enc gz proc clock sys fs bktPath tarDst
            = Some (fs(tarDst \<mapsto> gz (replicate 1024 0)), Saved))"
proof -
  have a: "fetchAll sched bkt bktPath [] = Inr []"
    using reorders_Nil [OF assms(1)] by (simp add: fetchAll_def)
  have walk: "fetchPath (Suc d) sched bkt bktPath bktPath = Some ([(bktPath, ''/'', [], 10000)], Inr [])"
    using assms a by simp
  have z: "zeroBlock @ zeroBlock = replicate 1024 0"
    by (simp add: zeroBlock_def flip: replicate_add)
  have run: "main_run (Suc d) sched bkt enc gz proc clock sys fs bktPath tarDst
        = Some (case ioutil_WriteFile sys fs tarDst (gz (replicate 1024 0)) of
                  (fs', Some err) \<Rightarrow>
                    (fs', Fatal ''writing tar/gzip buffer to %q, %v'' [ArgStr tarDst, ArgErr err])
                | (fs', None) \<Rightarrow> (fs', Saved))"
    unfolding main_run_def walk
    by (simp add: tarify_nothing split: prod.splits option.splits)
  have good: "open_fails sys tarDst = None \<and> write_takes sys tarDst (gz (replicate 1024 0)) = None
        \<and> close_fails sys tarDst = None \<longrightarrow>
          main_run (Suc d) sched bkt enc gz proc clock sys fs bktPath tarDst
            = Some (fs(tarDst \<mapsto> gz (replicate 1024 0)), Saved)"
    unfolding run by (simp add: ioutil_WriteFile_def)
  from walk z run good show ?thesis by (simp add: tarify_nothing)
qed

text \<open>Witness for C9: a store that lists nothing, on a system whose file operations
  succeed.\<close>

theorem empty_namespace_gives_empty_archive_witness:
  "reorders rev
   \<and> bkt_List empty_bucket ''path/'' ''/'' [] 10000
       = Inr \<lparr>Contents = [], CommonPrefixes = [], IsTruncated = False\<rparr>
   \<and> fetchPath (Suc 0) rev empty_bucket ''path/'' ''path/''
       = Some ([(''path/'', ''/'', [], 10000)], Inr [])
   \<and> main_run (Suc 0) rev empty_bucket name_block magic_gz demo_process demo_clock good_sys no_files
        ''path/'' ''bucket.tar.gz''
       = Some (no_files(''bucket.tar.gz'' \<mapsto> magic_gz (replicate 1024 0)), Saved)"
proof -
  have l: "bkt_List empty_bucket ''path/'' ''/'' [] 10000
       = Inr \<lparr>Contents = [], CommonPrefixes = [], IsTruncated = False\<rparr>"
    by (simp add: empty_bucket_def)
  have c: "Contents \<lparr>Contents = [], CommonPrefixes = [], IsTruncated = False\<rparr> = []"
    and p: "CommonPrefixes \<lparr>Contents = [], CommonPrefixes = [], IsTruncated = False\<rparr> = []"
    by simp_all
  note inst = empty_namespace_gives_empty_archive [OF reorders_rev l c p, of 0 name_block demo_process
      demo_clock magic_gz good_sys no_files "''bucket.tar.gz''"]
  have g: "open_fails good_sys ''bucket.tar.gz'' = None
      \<and> write_takes good_sys ''bucket.tar.gz'' (magic_gz (replicate 1024 0)) = None
      \<and> close_fails good_sys ''bucket.tar.gz'' = None"
    by (simp add: good_sys_def)
  from inst have walk: "fetchPath (Suc 0) rev empty_bucket ''path/'' ''path/''
       = Some ([(''path/'', ''/'', [], 10000)], Inr [])"
    by (rule conjunct1)
  from inst g have run: "main_run (Suc 0) rev empty_bucket name_block magic_gz demo_process demo_clock
        good_sys no_files ''path/'' ''bucket.tar.gz''
       = Some (no_files(''bucket.tar.gz'' \<mapsto> magic_gz (replicate 1024 0)), Saved)"
    by blast
  from reorders_rev l walk run show ?thesis by blast
qed

section \<open>Failure and the destination\<close>

lemma WriteFile_cases:
  "ioutil_WriteFile sys fs filename data = (fs', r) \<Longrightarrow>
     (fs' = fs \<and> r \<noteq> None) \<or> (\<exists>n. fs' = fs(filename \<mapsto> take n data))"
  "ioutil_WriteFile sys fs filename data = (fs', None) \<Longrightarrow> fs' = fs(filename \<mapsto> data)"
  by (auto simp: ioutil_WriteFile_def split: option.splits prod.splits intro: exI [of _ "length data"])








section \<open>Round trip\<close>

lemma length_zeroBlock [simp]: "length zeroBlock = 512"
  by (simp add: zeroBlock_def)

lemma read_trailer: "read_entries dec (zeroBlock @ zeroBlock) = Some []"
  by (subst read_entries.simps) simp

lemma length_padding [simp]: "length (padding n) = nat ((- n) mod blockSize)"
  by (simp add: padding_def)

lemma read_entry:
  assumes rb: "reads_back enc dec" and e: "enc hdr = Inr header"
    and sz: "hdr_Size hdr = int (length data)"
    and rest: "read_entries dec stream = Some es"
  shows "read_entries dec (entry_bytes enc (hdr, data) @ stream) = Some ((hdr_Name hdr, data) # es)"
proof -
  let ?rest = "data @ padding (hdr_Size hdr) @ stream"
  let ?n = "hdr_Size hdr"
  have eb: "entry_bytes enc (hdr, data) @ stream = header @ ?rest"
    using e by (simp add: entry_bytes_def)
  from rb e have ne: "header \<noteq> []" and nz: "take 512 (header @ ?rest) \<noteq> zeroBlock"
    and d: "dec (header @ ?rest) = Some ((hdr_Name hdr, ?n), ?rest)"
    unfolding reads_back_def by blast+
  have pad: "0 \<le> (- ?n) mod blockSize" by (simp add: blockSize_def)
  have n0: "\<not> ?n < 0" using sz by simp
  have len: "\<not> int (length ?rest) < ?n + (- ?n) mod blockSize"
    using sz pad by simp
  have shorter: "\<not> length (header @ ?rest) \<le> length ?rest" using ne by simp
  have nn: "nat (?n + (- ?n) mod blockSize) = length data + nat ((- ?n) mod blockSize)"
    using sz pad by (simp add: nat_add_distrib)
  have dr: "drop (nat (?n + (- ?n) mod blockSize)) ?rest = stream"
    unfolding nn by simp
  have tk: "take (nat ?n) ?rest = data" using sz by simp
  show ?thesis
    unfolding eb
    by (subst read_entries.simps) (simp only: nz d n0 len shorter dr tk rest if_False
        option.case prod.case simp_thms)
qed

lemma read_entries_bytes:
  assumes rb: "reads_back enc dec"
  shows "\<forall>e \<in> set es. \<not> isl (enc (fst e)) \<and> hdr_Size (fst e) = int (length (snd e)) \<Longrightarrow>
     read_entries dec (entries_bytes enc es @ zeroBlock @ zeroBlock)
       = Some (map (\<lambda>e. (hdr_Name (fst e), snd e)) es)"
proof (induction es)
  case Nil
  then show ?case by (simp add: entries_bytes_def read_trailer)
next
  case (Cons e es)
  obtain hdr data where e: "e = (hdr, data)" by (cases e)
  from Cons.prems e obtain header where en: "enc hdr = Inr header"
    and sz: "hdr_Size hdr = int (length data)"
    by (cases "enc hdr") auto
  from Cons.prems have "\<forall>e \<in> set es. \<not> isl (enc (fst e)) \<and> hdr_Size (fst e) = int (length (snd e))"
    by simp
  from Cons.IH [OF this] read_entry [OF rb en sz]
  have "read_entries dec (entry_bytes enc (hdr, data) @ entries_bytes enc es @ zeroBlock @ zeroBlock)
      = Some ((hdr_Name hdr, data) # map (\<lambda>e. (hdr_Name (fst e), snd e)) es)"
    by blast
  with e show ?case by (simp add: entries_bytes_def)
qed

lemma archive_entries_names:
  "map (\<lambda>e. (hdr_Name (fst e), snd e)) (archive_entries proc clock i objects)
     = map (\<lambda>object. (Name object, Data object)) objects"
  by (induction objects arbitrary: i) (simp_all add: TarHeader_def)

lemma tarify_reads_back:
  assumes rb: "reads_back enc dec"
    and t: "tarify w enc proc clock [] objects = (tarw, None)"
  shows "read_entries dec (tw_out tarw) = Some (map (\<lambda>object. (Name object, Data object)) objects)"
proof -
  from tarify_ok [OF t]
  have o: "tw_out tarw = entries_bytes enc (archive_entries proc clock 0 objects) @ zeroBlock @ zeroBlock"
    and ok: "\<forall>e \<in> set (archive_entries proc clock 0 objects). \<not> isl (enc (fst e))"
    by simp_all
  from ok archive_entries_sizes [of proc clock 0 objects]
  have "\<forall>e \<in> set (archive_entries proc clock 0 objects).
          \<not> isl (enc (fst e)) \<and> hdr_Size (fst e) = int (length (snd e))"
    by blast
  from read_entries_bytes [OF rb this] o show ?thesis
    by (simp add: archive_entries_names)
qed

text \<open>
  C7. Let the header reader read back what the header encoder writes and the decompressor
  undo the compressor. Then for every run of \<^verbatim>\<open>main\<close> that saves an archive,
  decompressing the saved file and reading it header by header yields one entry per object
  of the walk, in order, each with exactly the object's name and exactly its payload.
\<close>

theorem archive_round_trip:
  assumes "reads_back enc dec" and "inflates gz gunzip"
    and "main_run depth sched bkt enc gz proc clock sys fs bktPath tarDst = Some (fs', Saved)"
  shows "\<exists>calls objs archive tar.
           fetchPath depth sched bkt bktPath bktPath = Some (calls, Inr objs)
           \<and> fs' tarDst = Some archive
           \<and> gunzip archive = Some tar
           \<and> read_entries dec tar = Some (map (\<lambda>object. (Name object, Data object)) objs)"
proof -
  from assms(3) obtain calls objs where
    walk: "fetchPath depth sched bkt bktPath bktPath = Some (calls, Inr objs)"
    by (auto simp: main_run_def split: option.splits prod.splits sum.splits)
  with assms(3) obtain tarw where t: "tarify bytes_Buffer enc proc clock [] objs = (tarw, None)"
    by (auto simp: main_run_def split: option.splits prod.splits)
  with assms(3) walk have "ioutil_WriteFile sys fs tarDst (gz (tw_out tarw)) = (fs', None)"
    by (auto simp: main_run_def split: option.splits prod.splits)
  from WriteFile_cases(2) [OF this] have f: "fs' tarDst = Some (gz (tw_out tarw))" by simp
  from assms(2) have g: "gunzip (gz (tw_out tarw)) = Some (tw_out tarw)" by (simp add: inflates_def)
  from tarify_reads_back [OF assms(1) t] walk f g show ?thesis by blast
qed


lemma chars_of_bytes: "map (\<lambda>b. char_of (unat b)) (bytes_of s) = s"
proof -
  have "char_of (unat (of_nat (of_char c) :: byte)) = c" for c :: char
    by (simp add: unat_of_nat)
  then show ?thesis by (simp add: bytes_of_def comp_def)
qed

lemma framed_reads_back: "reads_back framed_block read_framed"
  unfolding reads_back_def
proof (intro allI impI)
  fix hdr header rest
  assume e: "framed_block hdr = Inr header"
  let ?name = "hdr_Name hdr"
  let ?n = "hdr_Size hdr"
  from e have l: "length ?name \<le> 255" and n: "0 \<le> ?n" "?n < 256"
    and h: "header = [1, of_nat (length ?name), of_int ?n]
                     @ bytes_of ?name @ replicate (509 - length ?name) 0"
    by (auto simp: framed_block_def split: if_splits)
  have ln: "unat (of_nat (length ?name) :: byte) = length ?name"
    using l by (simp add: unat_of_nat)
  have sz: "uint (of_int ?n :: byte) = ?n"
    using n by (simp add: uint_word_of_int)
  have lb: "length (bytes_of ?name) = length ?name" by (simp add: bytes_of_def)
  have "header \<noteq> []" using h by simp
  moreover have "take 512 (header @ rest) \<noteq> zeroBlock"
  proof
    assume eq: "take 512 (header @ rest) = zeroBlock"
    have "hd (take 512 (header @ rest)) = 1" using h by simp
    moreover have "hd zeroBlock = (0 :: byte)" by (simp add: zeroBlock_def)
    ultimately show False using eq by simp
  qed
  moreover have "read_framed (header @ rest) = Some ((?name, ?n), rest)"
    using l by (simp add: h read_framed_def ln sz lb chars_of_bytes)
  ultimately show "header \<noteq> [] \<and> take 512 (header @ rest) \<noteq> zeroBlock
        \<and> read_framed (header @ rest) = Some ((?name, ?n), rest)"
    by blast
qed

lemma magic_inflates: "inflates magic_gz strip_magic"
  by (simp add: inflates_def magic_gz_def strip_magic_def)

lemma framed_demo:
  "\<forall>e \<in> set (archive_entries demo_process demo_clock 0 [object_x, object_y]). \<not> isl (framed_block (fst e))"
  by (simp add: framed_block_def TarHeader_def object_x_def object_y_def bytes_of_def)

lemma framed_run:
  "\<exists>fs'. main_run 2 rev demo_bucket framed_block magic_gz demo_process demo_clock good_sys no_files
            [] ''bucket.tar.gz'' = Some (fs', Saved)"
proof -
  have walk: "fetchPath 2 rev demo_bucket [] []
      = Some ([([], ''/'', [], 10000), (''sub/'', ''/'', [], 10000)], Inr [object_x, object_y])"
    using demo_walk [OF reorders_rev, of 0] by (simp add: numeral_2_eq_2)
  from tarify_buffer [OF framed_demo, of "[]"] obtain tarw where
    t: "tarify bytes_Buffer framed_block demo_process demo_clock [] [object_x, object_y] = (tarw, None)"
    by blast
  from walk t show ?thesis
    by (simp add: main_run_def ioutil_WriteFile_def good_sys_def)
qed

text \<open>Witness for C7: the scenario, saved and read back with the stand-ins.\<close>

theorem archive_round_trip_witness:
  "reads_back framed_block read_framed \<and> inflates magic_gz strip_magic
   \<and> (\<exists>fs' archive tar.
         main_run 2 rev demo_bucket framed_block magic_gz demo_process demo_clock good_sys no_files
           [] ''bucket.tar.gz'' = Some (fs', Saved)
         \<and> fs' ''bucket.tar.gz'' = Some archive
         \<and> strip_magic archive = Some tar
         \<and> read_entries read_framed tar
             = Some [(''x'', bytes_of ''hello''), (''sub/y'', bytes_of ''world'')])"
proof -
  from framed_run obtain fs' where
    run: "main_run 2 rev demo_bucket framed_block magic_gz demo_process demo_clock good_sys no_files
            [] ''bucket.tar.gz'' = Some (fs', Saved)"
    by blast
  have walk: "fetchPath 2 rev demo_bucket [] []
      = Some ([([], ''/'', [], 10000), (''sub/'', ''/'', [], 10000)], Inr [object_x, object_y])"
    using demo_walk [OF reorders_rev, of 0] by (simp add: numeral_2_eq_2)
  from archive_round_trip [OF framed_reads_back magic_inflates run] walk
  obtain archive tar where "fs' ''bucket.tar.gz'' = Some archive" "strip_magic archive = Some tar"
    "read_entries read_framed tar
       = Some (map (\<lambda>object. (Name object, Data object)) [object_x, object_y])"
    by auto
  then have "fs' ''bucket.tar.gz'' = Some archive \<and> strip_magic archive = Some tar
    \<and> read_entries read_framed tar = Some [(''x'', bytes_of ''hello''), (''sub/y'', bytes_of ''world'')]"
    by (simp add: object_x_def object_y_def)
  with run framed_reads_back magic_inflates show ?thesis by blast
qed

end
